theory Spec2Isabelle
  imports Main "HOL-Library.Word"
begin

section \<open>Common types\<close>

type_synonym u32 = "32 word"

text \<open>The \<open>status_t\<close> codes the modelled functions return; \<open>OtherError\<close> stands for any
  further non-OK code handed back by a collaborator.\<close>

datatype status_t = OK | BAD_VALUE | NO_INIT | ALREADY_EXISTS | TIMED_OUT | NO_MEMORY
  | OtherError int

section \<open>RealtimeProcessBlock (common/hal/utils/realtime_process_block.cc)\<close>


record CaptureRequest =
  cr_frame_number :: u32
  cr_has_settings :: bool
  cr_output_streams :: "int list"

record ProcessBlockRequest =
  pbr_request_id :: u32
  pbr_request :: CaptureRequest

record HwlRequest =
  hr_pipeline_id :: u32
  hr_frame_number :: u32
  hr_output_streams :: "int list"


text \<open>The block's members, and three logs of what it has handed to its collaborators:
  the requests registered with the result processor, the requests submitted to the HWL
  and the frame numbers of the results forwarded to the result processor.\<close>

record block_state =
  is_configured :: bool
  pipeline_id :: u32
  result_processor :: "nat option"
  rp_pending_log :: "ProcessBlockRequest list"
  hwl_submit_log :: "(u32 \<times> HwlRequest list) list"
  rp_result_log :: "u32 list"




text \<open>\<open>NotifyHwlPipelineResult\<close>: the completion path. The argument is the frame number of
  the converted capture result, or \<open>None\<close> when \<open>ConvertToCaptureResult\<close> gives null.\<close>

definition NotifyHwlPipelineResult :: "u32 option \<Rightarrow> block_state \<Rightarrow> block_state" where
  "NotifyHwlPipelineResult capture_result s =
     (case result_processor s of
        None \<Rightarrow> s
      | Some rp \<Rightarrow>
          (case capture_result of
             None \<Rightarrow> s
           | Some fn \<Rightarrow> s\<lparr>rp_result_log := rp_result_log s @ [fn]\<rparr>))"


subsection \<open>A concrete run of the block\<close>









section \<open>Data model of the emulated camera (devices/EmulatedCamera/hwl)\<close>

text \<open>Member names are the source's without the trailing underscore; fields of
  different structs that share a name carry a prefix.\<close>

text \<open>What the C++ does where it has no defined result: a member access through a null
  \<open>unique_ptr\<close>, \<open>vector::at\<close> or \<open>unordered_map::at\<close> out of range, a call of an empty
  \<open>std::function\<close>.\<close>

datatype fault = NullDereference | OutOfRange | BadFunctionCall

datatype BufferStatus = kOk | kError

datatype ErrorCode = kErrorDevice | kErrorRequest | kErrorResult | kErrorBuffer

text \<open>\<open>NotifyMessage\<close>: an error message (frame number, error stream id, error code) or a
  shutter message (frame number, timestamp, readout timestamp).\<close>

datatype NotifyMessage =
    ErrorMessage u32 int ErrorCode
  | ShutterMessage u32 "64 word" "64 word"

subsection \<open>Camera metadata\<close>

datatype metadata_tag =
    ANDROID_CONTROL_SETTINGS_OVERRIDE
  | ANDROID_CONTROL_ZOOM_RATIO
  | ANDROID_SCALER_CROP_REGION
  | ANDROID_CONTROL_AE_REGIONS
  | ANDROID_CONTROL_AWB_REGIONS
  | ANDROID_CONTROL_AF_REGIONS
  | ANDROID_SENSOR_TIMESTAMP
  | ANDROID_SENSOR_EXPOSURE_TIME
  | OtherTag nat

datatype entry_type = TYPE_BYTE | TYPE_INT32 | TYPE_FLOAT | TYPE_INT64 | TYPE_DOUBLE
  | TYPE_RATIONAL

text \<open>A metadata entry: its type and its payload, one integer per element (a float is
  carried as its bit pattern); \<open>count\<close> is the number of elements.\<close>

record metadata_entry =
  etype :: entry_type
  edata :: "int list"

definition count :: "metadata_entry \<Rightarrow> nat" where
  "count e = length (edata e)"

text \<open>\<open>HalCameraMetadata\<close> as an association list from tags to entries: \<open>Get\<close> finds the
  entry of a tag (the source's \<open>ret == OK\<close> is \<open>Some\<close>), \<open>Set\<close> replaces or adds it.\<close>

type_synonym HalCameraMetadata = "(metadata_tag \<times> metadata_entry) list"

definition Get :: "HalCameraMetadata \<Rightarrow> metadata_tag \<Rightarrow> metadata_entry option" where
  "Get m tag = map_of m tag"

fun Set :: "metadata_tag \<Rightarrow> metadata_entry \<Rightarrow> HalCameraMetadata \<Rightarrow> HalCameraMetadata" where
  "Set tag e [] = [(tag, e)]"
| "Set tag e ((k, v) # m) = (if k = tag then (tag, e) # m else (k, v) # Set tag e m)"

text \<open>The value of the enumerator \<open>ANDROID_CONTROL_SETTINGS_OVERRIDE_ZOOM\<close> in the
  metadata tag header.\<close>

definition ANDROID_CONTROL_SETTINGS_OVERRIDE_ZOOM :: int where
  "ANDROID_CONTROL_SETTINGS_OVERRIDE_ZOOM = 1"

subsection \<open>Buffers, callbacks, requests and results\<close>

record StreamBuffer =
  stream_id :: int
  buffer_id :: nat
  buffer :: "nat option"
  status :: BufferStatus
  acquire_fence :: "nat option"

text \<open>\<open>HwlPipelineCallback\<close>: each member is a \<open>std::function\<close>, null (\<open>None\<close>) or a
  callable identified by a number.\<close>

record HwlPipelineCallback =
  process_pipeline_result :: "nat option"
  process_pipeline_batch_result :: "nat option"
  notify :: "nat option"

record SensorBuffer =
  buf_width :: int
  buf_height :: int
  buf_format :: nat
  buf_frame_number :: u32
  buf_pipeline_id :: u32
  camera_id :: u32
  callback :: HwlPipelineCallback
  stream_buffer :: StreamBuffer
  is_input :: bool
  is_failed_request :: bool
  acquire_fence_fd :: int

type_synonym Buffers = "SensorBuffer list"

record HwlPipelineResult =
  res_camera_id :: u32
  res_pipeline_id :: u32
  res_frame_number :: u32
  result_metadata :: "HalCameraMetadata option"
  partial_result :: u32
  physical_camera_results :: "(u32 \<times> HalCameraMetadata) list"

text \<open>One invocation of a client callback: \<open>notify(pipeline_id, msg)\<close> or
  \<open>process_pipeline_result(result)\<close>, with the callable invoked. A result call records
  which of the two result shells of the frame was passed: the partial one
  (\<open>partial_result\<close>) or the final one (\<open>result\<close>).\<close>

datatype result_kind = Partial | Final

datatype callback_event =
    NotifyCall nat u32 NotifyMessage
  | ResultCall nat result_kind HwlPipelineResult

record EmulatedStream =
  es_width :: int
  es_height :: int
  override_format :: nat
  es_is_input :: bool
  is_physical_camera_stream :: bool
  physical_camera_id :: u32

record EmulatedPipeline =
  cb :: HwlPipelineCallback
  streams :: "(int \<times> EmulatedStream) list"

record HwlPipelineRequest =
  req_pipeline_id :: u32
  req_settings :: "HalCameraMetadata option"
  req_input_buffers :: "StreamBuffer list"
  req_output_buffers :: "StreamBuffer list"
  input_width :: int
  input_height :: int

record PendingRequest =
  pr_frame_number :: u32
  pr_pipeline_id :: u32
  pr_callback :: HwlPipelineCallback
  pr_settings :: "HalCameraMetadata option"
  pr_input_buffers :: "Buffers option"
  pr_output_buffers :: "Buffers option"

record OverrideSetting =
  os_settings :: "HalCameraMetadata option"
  os_frame_number :: u32

subsection \<open>Sensor settings and characteristics\<close>

record SensorSettings =
  exposure_time :: int
  frame_duration :: int
  timestamp_source :: nat
  report_noise_profile :: bool

text \<open>\<open>LogicalCameraSettings\<close> and \<open>LogicalCharacteristics\<close> map a camera id to its
  settings and characteristics; \<open>begin()\<close> is the first pair, \<open>find\<close> is \<open>map_of\<close>.\<close>

type_synonym LogicalCameraSettings = "(u32 \<times> SensorSettings) list"

record SensorCharacteristics =
  sc_width :: nat
  sc_height :: nat
  quad_bayer_sensor :: bool

type_synonym LogicalCharacteristics = "(u32 \<times> SensorCharacteristics) list"

subsection \<open>Constants of EmulatedSensor.cpp\<close>

definition kSupportedExposureTimeRange_min :: int where
  "kSupportedExposureTimeRange_min = 1000"

definition kSupportedFrameDurationRange_min :: int where
  "kSupportedFrameDurationRange_min = 33331760"

definition kSupportedFrameDurationRange_max :: int where
  "kSupportedFrameDurationRange_max = 30000000000"

definition kDefaultFrameDuration :: int where
  "kDefaultFrameDuration = 33 * 1000000"

definition kReturnResultThreshod :: int where
  "kReturnResultThreshod = 3 * kDefaultFrameDuration"

definition kPipelineDepth :: "8 word" where
  "kPipelineDepth = 3"

subsection \<open>The state of the request processor and of the sensor\<close>

text \<open>The five pointers \<open>SetCurrentRequest\<close> latches and \<open>threadLoop\<close> swaps into its
  locals.\<close>

record latched =
  l_settings :: "LogicalCameraSettings option"
  l_result :: "HwlPipelineResult option"
  l_input_buffers :: "Buffers option"
  l_output_buffers :: "Buffers option"
  l_partial_result :: "HwlPipelineResult option"

definition no_request :: latched where
  "no_request = \<lparr> l_settings = None, l_result = None, l_input_buffers = None,
                   l_output_buffers = None, l_partial_result = None \<rparr>"

text \<open>
  The members of \<open>EmulatedRequestProcessor\<close> and of \<open>EmulatedSensor\<close> that the
  modelled functions read or write, and what leaves them:
  \<^item> \<open>request_state\<close> is the opaque state of \<open>EmulatedLogicalRequestState\<close>;
  \<^item> \<open>current\<close> holds \<open>current_settings_\<close>, \<open>current_result_\<close>,
    \<open>current_input_buffers_\<close>, \<open>current_output_buffers_\<close> and \<open>partial_result_\<close>;
  \<^item> \<open>sensor_thread\<close> holds the locals of a \<open>threadLoop\<close> iteration that has swapped
    its request in and not yet returned (the frame being synthesized);
  \<^item> \<open>callback_log\<close> lists the client callbacks invoked, in order;
  \<^item> \<open>jpeg_jobs\<close> lists the output buffers of the jobs queued at the JPEG compressor;
  \<^item> \<open>released\<close> lists the sensor buffers whose owning pointer was destroyed,
    in order, each as it was at that moment;
  \<^item> \<open>returned_stream_buffers\<close> lists the buffers handed to
    \<open>session_callback_.return_stream_buffers\<close>.
\<close>

record hal_state =
  pending_requests :: "PendingRequest list"
  override_settings :: "OverrideSetting list"
  last_settings :: "HalCameraMetadata option"
  last_override_settings :: "HalCameraMetadata option"
  request_state :: nat
  current :: latched
  got_vsync :: bool
  next_capture_time :: int
  next_readout_time :: int
  chars :: LogicalCharacteristics
  logical_camera_id :: u32
  sensor_thread :: "latched option"
  callback_log :: "callback_event list"
  jpeg_jobs :: "SensorBuffer list"
  released :: "SensorBuffer list"
  returned_stream_buffers :: "StreamBuffer list"

section \<open>EmulatedRequestProcessor: deferred override settings\<close>

text \<open>\<open>ApplyOverrideZoom\<close>: copy the entry of \<open>tag\<close> from the override settings into the
  request settings when it is present and of type int32 or float.\<close>

definition ApplyOverrideZoom ::
  "HalCameraMetadata \<Rightarrow> HalCameraMetadata \<Rightarrow> metadata_tag \<Rightarrow> HalCameraMetadata" where
  "ApplyOverrideZoom override_setting request_settings tag =
     (case Get override_setting tag of
        Some entry \<Rightarrow>
          if etype entry = TYPE_INT32 then Set tag entry request_settings
          else if etype entry = TYPE_FLOAT then Set tag entry request_settings
          else request_settings
      | None \<Rightarrow> request_settings)"

text \<open>The test \<open>(ret == OK) && (entry.count == 1) && (entry.data.i32[0] == ...ZOOM)\<close> on
  the settings-override entry of a metadata buffer.\<close>

definition override_is_zoom :: "HalCameraMetadata \<Rightarrow> bool" where
  "override_is_zoom override_setting =
     (case Get override_setting ANDROID_CONTROL_SETTINGS_OVERRIDE of
        Some entry \<Rightarrow>
          count entry = 1 \<and> hd (edata entry) = ANDROID_CONTROL_SETTINGS_OVERRIDE_ZOOM
      | None \<Rightarrow> False)"

definition apply_all_zoom_tags ::
  "HalCameraMetadata \<Rightarrow> HalCameraMetadata \<Rightarrow> HalCameraMetadata" where
  "apply_all_zoom_tags override_setting request_settings =
     ApplyOverrideZoom override_setting
       (ApplyOverrideZoom override_setting
         (ApplyOverrideZoom override_setting
           (ApplyOverrideZoom override_setting
             (ApplyOverrideZoom override_setting
               (ApplyOverrideZoom override_setting request_settings
                  ANDROID_CONTROL_SETTINGS_OVERRIDE)
                ANDROID_CONTROL_ZOOM_RATIO)
              ANDROID_SCALER_CROP_REGION)
            ANDROID_CONTROL_AE_REGIONS)
          ANDROID_CONTROL_AWB_REGIONS)
        ANDROID_CONTROL_AF_REGIONS"

text \<open>
  The loop of \<open>ApplyOverrideSettings\<close> for non-null request settings. Its arguments are
  \<open>kZoomSpeedup\<close> (declared in a header that is not part of the sources, so a
  parameter), the frame being serviced, the queue \<open>override_settings_\<close>,
  \<open>last_override_settings_\<close> and the request settings; it returns the function's result
  with the three updated. The subtraction is the source's, on \<open>uint32_t\<close>.
\<close>

fun override_loop ::
  "u32 \<Rightarrow> u32 \<Rightarrow> OverrideSetting list \<Rightarrow> HalCameraMetadata option \<Rightarrow> HalCameraMetadata
     \<Rightarrow> fault + (u32 \<times> OverrideSetting list \<times> HalCameraMetadata option \<times> HalCameraMetadata)"
  where
  "override_loop kZoomSpeedup frame_number [] last_override request_settings =
     Inr (0, [], last_override, request_settings)"
| "override_loop kZoomSpeedup frame_number (front # queue) last_override request_settings =
     (let override_frame_number = os_frame_number front;
          repeatingOverride = (os_settings front = None);
          override_setting = (if repeatingOverride then last_override else os_settings front)
      in case override_setting of
           None \<Rightarrow> Inl NullDereference
         | Some ov \<Rightarrow>
             let overriding = override_is_zoom ov;
                 request_settings' =
                   (if overriding then apply_all_zoom_tags ov request_settings
                    else request_settings);
                 last_override' = (if \<not> repeatingOverride then Some ov else last_override)
             in if override_frame_number - frame_number \<ge> kZoomSpeedup
                then Inr (if overriding then override_frame_number else 0,
                          queue, last_override', request_settings')
                else override_loop kZoomSpeedup frame_number queue last_override'
                       request_settings')"

text \<open>\<open>ApplyOverrideSettings\<close> on the state: with null request settings the loop is not
  entered. The result carries the updated request settings, which the source changes
  in place.\<close>

definition ApplyOverrideSettings ::
  "u32 \<Rightarrow> u32 \<Rightarrow> HalCameraMetadata option \<Rightarrow> hal_state
     \<Rightarrow> fault + (u32 \<times> HalCameraMetadata option \<times> hal_state)" where
  "ApplyOverrideSettings kZoomSpeedup frame_number request_settings s =
     (case request_settings of
        None \<Rightarrow> Inr (0, None, s)
      | Some rs \<Rightarrow>
          (case override_loop kZoomSpeedup frame_number (override_settings s)
                  (last_override_settings s) rs of
             Inl f \<Rightarrow> Inl f
           | Inr (r, queue, last_override, rs') \<Rightarrow>
               Inr (r, Some rs',
                    s\<lparr>override_settings := queue, last_override_settings := last_override\<rparr>)))"

section \<open>Collaborators\<close>

text \<open>What the synthesis of one output buffer (the format switch of \<open>threadLoop\<close>)
  leaves: the buffer filled and its status \<open>kOk\<close>; its status set back to \<open>kError\<close>; or
  the buffer handed to the JPEG compressor with status \<open>kError\<close>, for the compressor to
  set.\<close>

datatype synth_outcome = Captured | CaptureFailed | QueuedForJpeg

text \<open>The readings of the clock in one \<open>threadLoop\<close> iteration that decide what it
  does: at its start and when the synthesis is done. (The third reading only sets the
  length of the sleep.)\<close>

record loop_times =
  start_real_time :: int
  work_done_real_time :: int

text \<open>
  Code that the modelled functions call and that is not part of them, as parameters:
  the image synthesis and the metadata the sensor adds to a result; \<open>kZoomSpeedup\<close> and
  \<open>camera_id_\<close>; the methods of \<open>EmulatedLogicalRequestState\<close> (each receives and
  returns that object's opaque state); the session callbacks; gralloc locking
  (the outcome of \<open>LockSensorBuffer\<close>), fence import and fence wait.
\<close>

record hwl_env =
  synthesize :: "SensorBuffer \<Rightarrow> SensorSettings \<Rightarrow> SensorCharacteristics \<Rightarrow> bool \<Rightarrow> synth_outcome"
  fill_logical_metadata ::
    "SensorSettings \<Rightarrow> SensorCharacteristics \<Rightarrow> bool \<Rightarrow> HalCameraMetadata \<Rightarrow> HalCameraMetadata"
  fill_physical_metadata :: "SensorSettings \<Rightarrow> HalCameraMetadata \<Rightarrow> HalCameraMetadata"
  kZoomSpeedup :: u32
  processor_camera_id :: u32
  UpdateRequestForDynamicStreams ::
    "nat \<Rightarrow> HwlPipelineRequest \<Rightarrow> status_t \<times> HwlPipelineRequest \<times> nat"
  sensor_settings_of ::
    "nat \<Rightarrow> HalCameraMetadata \<Rightarrow> u32 list \<Rightarrow> u32 \<Rightarrow> status_t \<times> LogicalCameraSettings \<times> nat"
  InitializeLogicalResult :: "nat \<Rightarrow> u32 \<Rightarrow> u32 \<Rightarrow> bool \<Rightarrow> HwlPipelineResult option \<times> nat"
  request_stream_buffers :: "(int \<Rightarrow> u32 \<Rightarrow> status_t \<times> StreamBuffer list) option"
  return_stream_buffers :: "nat option"
  LockSensorBuffer :: "EmulatedStream \<Rightarrow> nat \<Rightarrow> int \<Rightarrow> int \<Rightarrow> status_t"
  importFence :: "nat \<Rightarrow> bool \<times> int"
  OverrideFormat :: "nat \<Rightarrow> nat"
  sync_wait :: "int \<Rightarrow> status_t"

section \<open>EmulatedSensor\<close>

definition buffers_of :: "Buffers option \<Rightarrow> SensorBuffer list" where
  "buffers_of bs = (case bs of None \<Rightarrow> [] | Some l \<Rightarrow> l)"

definition set_status :: "BufferStatus \<Rightarrow> SensorBuffer \<Rightarrow> SensorBuffer" where
  "set_status st b = b\<lparr>stream_buffer := (stream_buffer b)\<lparr>status := st\<rparr>\<rparr>"

text \<open>\<open>SetCurrentRequest\<close>: the five members are overwritten; the buffers they owned
  are destroyed.\<close>

definition SetCurrentRequest ::
  "LogicalCameraSettings option \<Rightarrow> HwlPipelineResult option \<Rightarrow> HwlPipelineResult option
     \<Rightarrow> Buffers option \<Rightarrow> Buffers option \<Rightarrow> hal_state \<Rightarrow> hal_state" where
  "SetCurrentRequest logical_settings result partial input_buffers output_buffers s =
     s\<lparr> current := \<lparr> l_settings = logical_settings, l_result = result,
                      l_input_buffers = input_buffers, l_output_buffers = output_buffers,
                      l_partial_result = partial \<rparr>,
        released := released s @ buffers_of (l_input_buffers (current s))
                      @ buffers_of (l_output_buffers (current s)) \<rparr>"

subsection \<open>ReturnResults\<close>

text \<open>The loop over \<open>result->physical_camera_results\<close>: a camera without settings is
  skipped; the noise profile of a camera without characteristics dereferences the end
  iterator.\<close>

fun physical_results_loop ::
  "hwl_env \<Rightarrow> LogicalCameraSettings \<Rightarrow> LogicalCharacteristics \<Rightarrow> int
     \<Rightarrow> (u32 \<times> HalCameraMetadata) list \<Rightarrow> fault + (u32 \<times> HalCameraMetadata) list" where
  "physical_results_loop env settings chs capture_time [] = Inr []"
| "physical_results_loop env settings chs capture_time ((cam, md) # rest) =
     (case map_of settings cam of
        None \<Rightarrow>
          (case physical_results_loop env settings chs capture_time rest of
             Inl f \<Rightarrow> Inl f
           | Inr rest' \<Rightarrow> Inr ((cam, md) # rest'))
      | Some physical_settings \<Rightarrow>
          if report_noise_profile physical_settings \<and> map_of chs cam = None
          then Inl NullDereference
          else
            (case physical_results_loop env settings chs capture_time rest of
               Inl f \<Rightarrow> Inl f
             | Inr rest' \<Rightarrow>
                 Inr ((cam, fill_physical_metadata env physical_settings
                             (Set ANDROID_SENSOR_TIMESTAMP
                                \<lparr>etype = TYPE_INT64, edata = [capture_time]\<rparr> md)) # rest')))"

text \<open>\<open>ReturnResults\<close>: the callbacks it invokes, in order. The partial result is
  delivered when its \<open>partial_result\<close> count is not zero, then the final result.\<close>

definition ReturnResults ::
  "hwl_env \<Rightarrow> HwlPipelineCallback \<Rightarrow> LogicalCameraSettings option \<Rightarrow> HwlPipelineResult option
     \<Rightarrow> bool \<Rightarrow> HwlPipelineResult option \<Rightarrow> hal_state \<Rightarrow> fault + callback_event list" where
  "ReturnResults env callback_arg settings result reprocess_request partial s =
     (case process_pipeline_result callback_arg of
        None \<Rightarrow> Inr []
      | Some deliver \<Rightarrow>
          (case result of
             None \<Rightarrow> Inr []
           | Some res \<Rightarrow>
               (case result_metadata res of
                  None \<Rightarrow> Inr []
                | Some md \<Rightarrow>
                    (case settings of
                       None \<Rightarrow> Inl NullDereference
                     | Some st \<Rightarrow>
                         (case map_of st (logical_camera_id s) of
                            None \<Rightarrow> Inr []
                          | Some logical_settings \<Rightarrow>
                              (case map_of (chars s) (logical_camera_id s) of
                                 None \<Rightarrow> Inr []
                               | Some device_chars \<Rightarrow>
                                   (case physical_results_loop env st (chars s)
                                           (next_capture_time s)
                                           (physical_camera_results res) of
                                      Inl f \<Rightarrow> Inl f
                                    | Inr phys \<Rightarrow>
                                        (case partial of
                                           None \<Rightarrow> Inl NullDereference
                                         | Some p \<Rightarrow>
                                             Inr ((if partial_result p \<noteq> 0
                                                   then [ResultCall deliver Partial p] else [])
                                                  @ [ResultCall deliver Final
                                                       (res\<lparr>result_metadata :=
                                                          Some (fill_logical_metadata env
                                                             logical_settings device_chars
                                                             reprocess_request
                                                             (Set ANDROID_SENSOR_TIMESTAMP
                                                                \<lparr>etype = TYPE_INT64,
                                                                 edata = [next_capture_time s]\<rparr>
                                                                md)),
                                                        physical_camera_results := phys\<rparr>)])))))))))"

subsection \<open>threadLoop\<close>

text \<open>Stage 1, under \<open>control_mutex_\<close>: the latched request is swapped into the locals
  of the iteration and the VSync is signalled.\<close>

definition threadLoop_stage1 :: "hal_state \<Rightarrow> hal_state" where
  "threadLoop_stage1 s =
     s\<lparr> sensor_thread := Some (current s), current := no_request, got_vsync := True \<rparr>"

text \<open>Capture and readout time of the frame and whether it is a reprocess request:
  a non-empty input buffer list takes the clk from the metadata of \<open>next_result\<close>.\<close>

definition single_value :: "HalCameraMetadata \<Rightarrow> metadata_tag \<Rightarrow> int option" where
  "single_value m tag =
     (case Get m tag of
        Some entry \<Rightarrow> if count entry = 1 then Some (hd (edata entry)) else None
      | None \<Rightarrow> None)"

definition frame_end_of :: "loop_times \<Rightarrow> latched \<Rightarrow> int" where
  "frame_end_of clk locals =
     start_real_time clk +
       (case l_settings locals of
          Some (first # others) \<Rightarrow> frame_duration (snd first)
        | _ \<Rightarrow> kSupportedFrameDurationRange_min)"

definition capture_times :: "loop_times \<Rightarrow> latched \<Rightarrow> fault + (int \<times> int \<times> bool)" where
  "capture_times clk locals =
     (let exposure_time_used =
            (case l_settings locals of
               Some (first # others) \<Rightarrow> exposure_time (snd first)
             | _ \<Rightarrow> kSupportedExposureTimeRange_min);
          frame_end_real_time = frame_end_of clk locals
      in case l_input_buffers locals of
           Some (ib # ibs) \<Rightarrow>
             (case l_result locals of
                None \<Rightarrow> Inl NullDereference
              | Some next_result \<Rightarrow>
                  (case result_metadata next_result of
                     None \<Rightarrow> Inl NullDereference
                   | Some md \<Rightarrow>
                       let capture = (case single_value md ANDROID_SENSOR_TIMESTAMP of
                                        Some t \<Rightarrow> t | None \<Rightarrow> frame_end_real_time)
                       in Inr (capture,
                               (case single_value md ANDROID_SENSOR_EXPOSURE_TIME of
                                  Some e \<Rightarrow> capture + e | None \<Rightarrow> capture),
                               True)))
         | _ \<Rightarrow> Inr (frame_end_real_time, frame_end_real_time + exposure_time_used, False))"

text \<open>
  The loop over \<open>next_buffers\<close>. A buffer whose camera has no settings or no
  characteristics is erased as it is. Any other buffer has its status set to \<open>kOk\<close> and
  is synthesized; it is then erased, or has been handed to the JPEG compressor (which
  reads \<open>next_result\<close>). The result lists the erased buffers and the queued ones.
\<close>

fun process_buffers ::
  "hwl_env \<Rightarrow> LogicalCameraSettings \<Rightarrow> LogicalCharacteristics \<Rightarrow> bool
     \<Rightarrow> HwlPipelineResult option \<Rightarrow> SensorBuffer list
     \<Rightarrow> fault + (SensorBuffer list \<times> SensorBuffer list)" where
  "process_buffers env settings chs reprocess_request next_result [] = Inr ([], [])"
| "process_buffers env settings chs reprocess_request next_result (b # bs) =
     (case map_of settings (camera_id b) of
        None \<Rightarrow>
          (case process_buffers env settings chs reprocess_request next_result bs of
             Inl f \<Rightarrow> Inl f
           | Inr (erased, queued) \<Rightarrow> Inr (b # erased, queued))
      | Some device_settings \<Rightarrow>
          (case map_of chs (camera_id b) of
             None \<Rightarrow>
               (case process_buffers env settings chs reprocess_request next_result bs of
                  Inl f \<Rightarrow> Inl f
                | Inr (erased, queued) \<Rightarrow> Inr (b # erased, queued))
           | Some device_chars \<Rightarrow>
               (case synthesize env (set_status kOk b) device_settings device_chars
                       reprocess_request of
                  Captured \<Rightarrow>
                    (case process_buffers env settings chs reprocess_request next_result bs of
                       Inl f \<Rightarrow> Inl f
                     | Inr (erased, queued) \<Rightarrow> Inr (set_status kOk b # erased, queued))
                | CaptureFailed \<Rightarrow>
                    (case process_buffers env settings chs reprocess_request next_result bs of
                       Inl f \<Rightarrow> Inl f
                     | Inr (erased, queued) \<Rightarrow> Inr (set_status kError b # erased, queued))
                | QueuedForJpeg \<Rightarrow>
                    (case next_result of
                       None \<Rightarrow> Inl NullDereference
                     | Some r \<Rightarrow>
                         (case process_buffers env settings chs reprocess_request
                                 next_result bs of
                            Inl f \<Rightarrow> Inl f
                          | Inr (erased, queued) \<Rightarrow>
                              Inr (erased, set_status kError b # queued))))))"

definition null_callback :: HwlPipelineCallback where
  "null_callback = \<lparr> process_pipeline_result = None, process_pipeline_batch_result = None,
                      notify = None \<rparr>"

text \<open>The shutter notification of \<open>threadLoop\<close>: sent through \<open>callback.notify\<close>
  when that is non-null, with the pipeline id read from \<open>next_result\<close>.\<close>

definition shutter_notification ::
  "SensorBuffer \<Rightarrow> HwlPipelineResult option \<Rightarrow> int \<Rightarrow> int \<Rightarrow> fault + callback_event list"
  where
  "shutter_notification first next_result capture readout =
     (case notify (callback first) of
        None \<Rightarrow> Inr []
      | Some notify_fn \<Rightarrow>
          (case next_result of
             None \<Rightarrow> Inl NullDereference
           | Some r \<Rightarrow>
               Inr [NotifyCall notify_fn (res_pipeline_id r)
                      (ShutterMessage (buf_frame_number first)
                         (of_int capture) (of_int readout))]))"

text \<open>
  Stage 2 up to the end of the buffer loop. With output buffers and settings both
  non-null, the callback is taken from the first buffer (\<open>at(0)\<close>), the shutter
  notification is sent, and the buffers are processed.
  The result: the callback, the callbacks invoked, the erased buffers, the buffers
  queued for JPEG, and the output buffers still owned by the locals.
\<close>

definition synthesis_stage ::
  "hwl_env \<Rightarrow> LogicalCharacteristics \<Rightarrow> latched \<Rightarrow> bool \<Rightarrow> int \<Rightarrow> int
     \<Rightarrow> fault + (HwlPipelineCallback \<times> callback_event list \<times> SensorBuffer list
                 \<times> SensorBuffer list \<times> SensorBuffer list)" where
  "synthesis_stage env chs locals reprocess_request capture readout =
     (case l_output_buffers locals of
        None \<Rightarrow> Inr (null_callback, [], [], [], [])
      | Some next_buffers \<Rightarrow>
          (case l_settings locals of
             None \<Rightarrow> Inr (null_callback, [], [], [], next_buffers)
           | Some settings \<Rightarrow>
               (case next_buffers of
                  [] \<Rightarrow> Inl OutOfRange
                | first # others \<Rightarrow>
                    (case shutter_notification first (l_result locals) capture readout of
                       Inl f \<Rightarrow> Inl f
                     | Inr shutter \<Rightarrow>
                         (case process_buffers env settings chs reprocess_request
                                 (l_result locals) next_buffers of
                            Inl f \<Rightarrow> Inl f
                          | Inr (erased, queued) \<Rightarrow>
                              Inr (callback first, shutter, erased, queued, []))))))"

text \<open>
  The two calls of \<open>ReturnResults\<close> at the end of the iteration. The first is made
  under a tight deadline only; it takes the settings and both results by move, so that
  the second call then receives null pointers. \<open>leftover\<close> are the output buffers the
  locals still own when the function returns.
\<close>

definition return_stage ::
  "hwl_env \<Rightarrow> loop_times \<Rightarrow> latched \<Rightarrow> HwlPipelineCallback \<Rightarrow> bool \<Rightarrow> SensorBuffer list
     \<Rightarrow> hal_state \<Rightarrow> fault + hal_state" where
  "return_stage env clk locals cbk reprocess_request leftover s =
     (if work_done_real_time clk + kReturnResultThreshod > frame_end_of clk locals
      then
        (case ReturnResults env cbk (l_settings locals) (l_result locals) reprocess_request
                (l_partial_result locals) s of
           Inl f \<Rightarrow> Inl f
         | Inr early \<Rightarrow>
             (case ReturnResults env cbk None None reprocess_request None s of
                Inl f \<Rightarrow> Inl f
              | Inr late \<Rightarrow>
                  Inr (s\<lparr> callback_log := callback_log s @ early @ late,
                          released := released s @ leftover \<rparr>)))
      else
        (case ReturnResults env cbk (l_settings locals) (l_result locals) reprocess_request
                (l_partial_result locals) s of
           Inl f \<Rightarrow> Inl f
         | Inr late \<Rightarrow>
             Inr (s\<lparr> callback_log := callback_log s @ late,
                     released := released s @ leftover \<rparr>)))"

text \<open>The iteration after stage 1, on the locals \<open>locals\<close>. Input buffers of a
  reprocess request get status \<open>kOk\<close> and are cleared.\<close>

definition threadLoop_body :: "hwl_env \<Rightarrow> loop_times \<Rightarrow> latched \<Rightarrow> hal_state \<Rightarrow> fault + hal_state"
  where
  "threadLoop_body env clk locals s =
     (case capture_times clk locals of
        Inl f \<Rightarrow> Inl f
      | Inr (capture, readout, reprocess_request) \<Rightarrow>
          (case synthesis_stage env (chars s) locals reprocess_request capture readout of
             Inl f \<Rightarrow> Inl f
           | Inr (cbk, shutter, erased, queued, leftover) \<Rightarrow>
               return_stage env clk locals cbk reprocess_request leftover
                 (s\<lparr> next_capture_time := capture,
                      next_readout_time := readout,
                      callback_log := callback_log s @ shutter,
                      jpeg_jobs := jpeg_jobs s @ queued,
                      released := released s @ erased @
                        (if reprocess_request
                         then map (set_status kOk) (buffers_of (l_input_buffers locals))
                         else []) \<rparr>)))"

text \<open>The rest of an iteration that has done stage 1, and a whole iteration.\<close>

definition threadLoop_rest :: "hwl_env \<Rightarrow> loop_times \<Rightarrow> hal_state \<Rightarrow> fault + hal_state" where
  "threadLoop_rest env clk s =
     (case sensor_thread s of
        None \<Rightarrow> Inr s
      | Some locals \<Rightarrow> threadLoop_body env clk locals (s\<lparr>sensor_thread := None\<rparr>))"

definition threadLoop :: "hwl_env \<Rightarrow> loop_times \<Rightarrow> hal_state \<Rightarrow> fault + hal_state" where
  "threadLoop env clk s = threadLoop_rest env clk (threadLoop_stage1 s)"

text \<open>What a thread waiting for the VSync sees happen: the sensor thread ends the
  iteration it is in, if any, and starts the next one.\<close>

definition vsync_step :: "hwl_env \<Rightarrow> loop_times \<Rightarrow> hal_state \<Rightarrow> fault + hal_state" where
  "vsync_step env clk s =
     (case threadLoop_rest env clk s of
        Inl f \<Rightarrow> Inl f
      | Inr s' \<Rightarrow> Inr (threadLoop_stage1 s'))"

subsection \<open>WaitForVSync and Flush\<close>

datatype wait_status = WaitOK | WaitTimedOut | WaitError

text \<open>
  \<open>WaitForVSyncLocked\<close>. Each element of the list is one call of \<open>waitRelative\<close>:
  whether the sensor thread signalled a VSync meanwhile (with the clock readings of
  the iteration it ended), and the status the call returned. A timeout does not end
  the loop; only a VSync or another error does. \<open>None\<close>: the list is used up and the
  caller is still waiting.
\<close>

fun vsync_wait_loop ::
  "hwl_env \<Rightarrow> (loop_times option \<times> wait_status) list \<Rightarrow> hal_state
     \<Rightarrow> (fault + (bool \<times> hal_state)) option" where
  "vsync_wait_loop env [] s = (if got_vsync s then Some (Inr (True, s)) else None)"
| "vsync_wait_loop env ((vsync, res) # waits) s =
     (if got_vsync s then Some (Inr (True, s))
      else
        (case (case vsync of None \<Rightarrow> Inr s | Some clk \<Rightarrow> vsync_step env clk s) of
           Inl f \<Rightarrow> Some (Inl f)
         | Inr s' \<Rightarrow>
             if res = WaitError then Some (Inr (False, s'))
             else vsync_wait_loop env waits s'))"

definition WaitForVSyncLocked ::
  "hwl_env \<Rightarrow> (loop_times option \<times> wait_status) list \<Rightarrow> hal_state
     \<Rightarrow> (fault + (bool \<times> hal_state)) option" where
  "WaitForVSyncLocked env waits s = vsync_wait_loop env waits (s\<lparr>got_vsync := False\<rparr>)"

text \<open>The part of \<open>EmulatedSensor::Flush\<close> after the wait: the JPEG compressor is
  recreated, the latched input buffers are cleared, the latched output buffers are
  marked \<open>kError\<close>, one error notification is sent for them when the latched result
  has metadata and \<open>notify\<close> is non-null, and they are cleared.\<close>

definition flush_current :: "hal_state \<Rightarrow> hal_state" where
  "flush_current s =
     (let s1 = s\<lparr> released := released s @ jpeg_jobs s, jpeg_jobs := [] \<rparr>;
          s2 = (case l_input_buffers (current s1) of
                  Some (ib # ibs) \<Rightarrow>
                    s1\<lparr> released := released s1 @ (ib # ibs),
                        current := (current s1)\<lparr>l_input_buffers := Some []\<rparr> \<rparr>
                | _ \<Rightarrow> s1)
      in case l_output_buffers (current s2) of
           Some (ob # obs) \<Rightarrow>
             s2\<lparr> callback_log := callback_log s2 @
                    (case l_result (current s2) of
                       None \<Rightarrow> []
                     | Some r \<Rightarrow>
                         (case result_metadata r of
                            None \<Rightarrow> []
                          | Some md \<Rightarrow>
                              (case notify (callback ob) of
                                 None \<Rightarrow> []
                               | Some notify_fn \<Rightarrow>
                                   [NotifyCall notify_fn (res_pipeline_id r)
                                      (ErrorMessage (buf_frame_number ob) (- 1) kErrorResult)]))),
                 released := released s2 @ map (set_status kError) (ob # obs),
                 current := (current s2)\<lparr>l_output_buffers := Some []\<rparr> \<rparr>
         | _ \<Rightarrow> s2)"

definition Sensor_Flush ::
  "hwl_env \<Rightarrow> (loop_times option \<times> wait_status) list \<Rightarrow> hal_state
     \<Rightarrow> (fault + (status_t \<times> hal_state)) option" where
  "Sensor_Flush env waits s =
     (case WaitForVSyncLocked env waits s of
        None \<Rightarrow> None
      | Some (Inl f) \<Rightarrow> Some (Inl f)
      | Some (Inr (ret, s')) \<Rightarrow>
          Some (Inr (if ret then OK else TIMED_OUT, flush_current s')))"

section \<open>EmulatedRequestProcessor\<close>

subsection \<open>Sensor buffers\<close>

text \<open>
  \<open>CreateSensorBuffer\<close>. The buffer is built from the stream and the stream buffer and
  its status is set to \<open>kError\<close>; a failed lock or a failed fence import marks it as
  belonging to a failed request and destroys it. The result is the buffer returned
  (or null) and the buffer destroyed, if any.
\<close>

definition new_sensor_buffer ::
  "hwl_env \<Rightarrow> u32 \<Rightarrow> EmulatedStream \<Rightarrow> u32 \<Rightarrow> HwlPipelineCallback \<Rightarrow> StreamBuffer \<Rightarrow> int \<Rightarrow> int
     \<Rightarrow> SensorBuffer" where
  "new_sensor_buffer env frame_number emulated_stream pipeline cbk sbuf override_width
       override_height =
     \<lparr> buf_width = (if override_width > 0 \<and> override_height > 0 then override_width
                     else es_width emulated_stream),
       buf_height = (if override_width > 0 \<and> override_height > 0 then override_height
                      else es_height emulated_stream),
       buf_format = (if es_is_input emulated_stream
                     then OverrideFormat env (override_format emulated_stream)
                     else override_format emulated_stream),
       buf_frame_number = frame_number,
       buf_pipeline_id = pipeline,
       camera_id = (if is_physical_camera_stream emulated_stream
                    then physical_camera_id emulated_stream
                    else processor_camera_id env),
       callback = cbk,
       stream_buffer = sbuf\<lparr>status := kError\<rparr>,
       is_input = es_is_input emulated_stream,
       is_failed_request = False,
       acquire_fence_fd = - 1 \<rparr>"

definition import_acquire_fence ::
  "hwl_env \<Rightarrow> StreamBuffer \<Rightarrow> SensorBuffer \<Rightarrow> SensorBuffer option \<times> SensorBuffer list" where
  "import_acquire_fence env sbuf b =
     (case acquire_fence sbuf of
        None \<Rightarrow> (Some b, [])
      | Some fence \<Rightarrow>
          (case importFence env fence of
             (fence_status, fd) \<Rightarrow>
               if \<not> fence_status then (None, [b\<lparr>is_failed_request := True\<rparr>])
               else (Some (b\<lparr>acquire_fence_fd := fd\<rparr>), [])))"

definition CreateSensorBuffer ::
  "hwl_env \<Rightarrow> u32 \<Rightarrow> EmulatedStream \<Rightarrow> u32 \<Rightarrow> HwlPipelineCallback \<Rightarrow> StreamBuffer \<Rightarrow> int \<Rightarrow> int
     \<Rightarrow> SensorBuffer option \<times> SensorBuffer list" where
  "CreateSensorBuffer env frame_number emulated_stream pipeline cbk sbuf override_width
       override_height =
     (let stream = (if es_is_input emulated_stream
                    then emulated_stream\<lparr>override_format :=
                           OverrideFormat env (override_format emulated_stream)\<rparr>
                    else emulated_stream);
          b = new_sensor_buffer env frame_number emulated_stream pipeline cbk sbuf
                override_width override_height
      in case buffer sbuf of
           None \<Rightarrow> import_acquire_fence env sbuf b
         | Some handle \<Rightarrow>
             if LockSensorBuffer env stream handle (buf_width b) (buf_height b) \<noteq> OK
             then (None, [b\<lparr>is_failed_request := True\<rparr>])
             else import_acquire_fence env sbuf b)"

text \<open>The first loop of \<open>CreateSensorBuffers\<close>: a stream buffer with a handle is taken
  as it is; one without is requested from the session, and skipped when that fails.\<close>

fun request_buffers :: "hwl_env \<Rightarrow> u32 \<Rightarrow> StreamBuffer list \<Rightarrow> StreamBuffer list" where
  "request_buffers env frame_number [] = []"
| "request_buffers env frame_number (b # bs) =
     (case buffer b of
        Some handle \<Rightarrow> b # request_buffers env frame_number bs
      | None \<Rightarrow>
          (case request_stream_buffers env of
             None \<Rightarrow> request_buffers env frame_number bs
           | Some request_fn \<Rightarrow>
               (case request_fn (stream_id b) frame_number of
                  (res, one_requested_buffer) \<Rightarrow>
                    if res \<noteq> OK then request_buffers env frame_number bs
                    else
                      (case one_requested_buffer of
                         [one] \<Rightarrow>
                           if buffer one = None then request_buffers env frame_number bs
                           else one # request_buffers env frame_number bs
                       | _ \<Rightarrow> request_buffers env frame_number bs))))"

text \<open>The second loop: one sensor buffer per stream buffer; \<open>streams.at\<close> of an unknown
  stream id is out of range.\<close>

fun create_loop ::
  "hwl_env \<Rightarrow> u32 \<Rightarrow> (int \<times> EmulatedStream) list \<Rightarrow> u32 \<Rightarrow> HwlPipelineCallback \<Rightarrow> int \<Rightarrow> int
     \<Rightarrow> StreamBuffer list \<Rightarrow> fault + (SensorBuffer list \<times> SensorBuffer list)" where
  "create_loop env frame_number strs pipeline cbk ow oh [] = Inr ([], [])"
| "create_loop env frame_number strs pipeline cbk ow oh (b # bs) =
     (case map_of strs (stream_id b) of
        None \<Rightarrow> Inl OutOfRange
      | Some stream \<Rightarrow>
          (case CreateSensorBuffer env frame_number stream pipeline cbk b ow oh of
             (created, destroyed) \<Rightarrow>
               (case create_loop env frame_number strs pipeline cbk ow oh bs of
                  Inl f \<Rightarrow> Inl f
                | Inr (sensor_buffers, destroyed') \<Rightarrow>
                    Inr ((case created of None \<Rightarrow> sensor_buffers
                          | Some sb \<Rightarrow> sb # sensor_buffers),
                         destroyed @ destroyed'))))"

definition CreateSensorBuffers ::
  "hwl_env \<Rightarrow> u32 \<Rightarrow> StreamBuffer list \<Rightarrow> (int \<times> EmulatedStream) list \<Rightarrow> u32
     \<Rightarrow> HwlPipelineCallback \<Rightarrow> int \<Rightarrow> int \<Rightarrow> hal_state \<Rightarrow> fault + (Buffers option \<times> hal_state)"
  where
  "CreateSensorBuffers env frame_number buffers strs pipeline cbk ow oh s =
     (if buffers = [] then Inr (None, s)
      else
        let requested_buffers = request_buffers env frame_number buffers;
            short = (length requested_buffers < length buffers);
            s1 = (if short \<and> return_stream_buffers env \<noteq> None
                  then s\<lparr>returned_stream_buffers :=
                           returned_stream_buffers s @ requested_buffers\<rparr>
                  else s)
        in case create_loop env frame_number strs pipeline cbk ow oh
                  (if short then [] else requested_buffers) of
             Inl f \<Rightarrow> Inl f
           | Inr (sensor_buffers, destroyed) \<Rightarrow>
               Inr (Some sensor_buffers, s1\<lparr>released := released s1 @ destroyed\<rparr>))"

text \<open>\<open>AcquireBuffers\<close>: null for a null or empty list; otherwise the buffers whose
  acquire fence, if any, was signalled in time. The others are erased; the source list
  ends up empty.\<close>

fun acquire_loop :: "hwl_env \<Rightarrow> SensorBuffer list \<Rightarrow> SensorBuffer list \<times> SensorBuffer list" where
  "acquire_loop env [] = ([], [])"
| "acquire_loop env (b # bs) =
     (case acquire_loop env bs of
        (acquired, dropped) \<Rightarrow>
          if (if acquire_fence_fd b \<ge> 0 then sync_wait env (acquire_fence_fd b) else OK) = OK
          then (b # acquired, dropped)
          else (acquired, b # dropped))"

definition AcquireBuffers ::
  "hwl_env \<Rightarrow> Buffers option \<Rightarrow> Buffers option \<times> SensorBuffer list" where
  "AcquireBuffers env buffers =
     (case buffers of
        None \<Rightarrow> (None, [])
      | Some [] \<Rightarrow> (None, [])
      | Some (b # bs) \<Rightarrow>
          (case acquire_loop env (b # bs) of
             (acquired, dropped) \<Rightarrow> (Some acquired, dropped)))"

subsection \<open>Notifications\<close>

text \<open>A call of \<open>callback.notify(pipeline_id, msg)\<close>; the callable may be empty.\<close>

definition call_notify ::
  "HwlPipelineCallback \<Rightarrow> u32 \<Rightarrow> NotifyMessage \<Rightarrow> hal_state \<Rightarrow> fault + hal_state" where
  "call_notify cbk pipeline msg s =
     (case notify cbk of
        None \<Rightarrow> Inl BadFunctionCall
      | Some notify_fn \<Rightarrow>
          Inr (s\<lparr>callback_log := callback_log s @ [NotifyCall notify_fn pipeline msg]\<rparr>))"

text \<open>\<open>NotifyFailedRequest\<close>: the output buffers of the request are marked, and one
  \<open>kErrorRequest\<close> notification is sent. The request is returned with its buffers
  marked.\<close>

definition NotifyFailedRequest ::
  "PendingRequest \<Rightarrow> hal_state \<Rightarrow> fault + (PendingRequest \<times> hal_state)" where
  "NotifyFailedRequest request s =
     (let marked = request\<lparr>pr_output_buffers :=
                      map_option (map (\<lambda>b. b\<lparr>is_failed_request := True\<rparr>))
                        (pr_output_buffers request)\<rparr>
      in case call_notify (pr_callback request) (pr_pipeline_id request)
                (ErrorMessage (pr_frame_number request) (- 1) kErrorRequest) s of
           Inl f \<Rightarrow> Inl f
         | Inr s' \<Rightarrow> Inr (marked, s'))"

subsection \<open>RequestProcessorLoop\<close>

text \<open>
  Modelled from the spec: \<open>EmulatedLogicalRequestState::InitializeLogicalSettings\<close> is
  not among the sources. The spec's data model says of a capture request: "when
  settings are absent, the scheduler must have a previously cached valid settings
  snapshot, else the request fails". So the call fails when it is given no settings;
  what it returns for settings is the parameter \<open>sensor_settings_of\<close>.
\<close>

definition InitializeLogicalSettings ::
  "hwl_env \<Rightarrow> nat \<Rightarrow> HalCameraMetadata option \<Rightarrow> u32 list \<Rightarrow> u32
     \<Rightarrow> status_t \<times> LogicalCameraSettings \<times> nat" where
  "InitializeLogicalSettings env rstate request_settings physical_camera_output_ids
       override_frame_number =
     (case request_settings of
        None \<Rightarrow> (BAD_VALUE, [], rstate)
      | Some m \<Rightarrow>
          sensor_settings_of env rstate m physical_camera_output_ids override_frame_number)"

definition physical_output_ids :: "hwl_env \<Rightarrow> SensorBuffer list \<Rightarrow> u32 list" where
  "physical_output_ids env output_buffers =
     remdups (filter (\<lambda>c. c \<noteq> processor_camera_id env) (map camera_id output_buffers))"

text \<open>
  The settings of the frame: the request's own settings when it has some (they also
  become \<open>last_settings_\<close>), otherwise \<open>last_settings_\<close>; in both cases after
  \<open>ApplyOverrideSettings\<close> has changed them in place.
\<close>

definition frame_settings ::
  "hwl_env \<Rightarrow> PendingRequest \<Rightarrow> u32 list \<Rightarrow> hal_state
     \<Rightarrow> fault + (status_t \<times> LogicalCameraSettings \<times> hal_state)" where
  "frame_settings env request ids s =
     (case pr_settings request of
        Some rs \<Rightarrow>
          (case ApplyOverrideSettings (kZoomSpeedup env) (pr_frame_number request) (Some rs) s of
             Inl f \<Rightarrow> Inl f
           | Inr (override_frame_number, settings', s') \<Rightarrow>
               (case InitializeLogicalSettings env (request_state s') settings' ids
                       override_frame_number of
                  (ret, logical_settings, rstate) \<Rightarrow>
                    Inr (ret, logical_settings,
                         s'\<lparr>request_state := rstate, last_settings := settings'\<rparr>)))
      | None \<Rightarrow>
          (case ApplyOverrideSettings (kZoomSpeedup env) (pr_frame_number request)
                  (last_settings s) s of
             Inl f \<Rightarrow> Inl f
           | Inr (override_frame_number, last_settings', s') \<Rightarrow>
               (case InitializeLogicalSettings env (request_state s') last_settings' ids
                       override_frame_number of
                  (ret, logical_settings, rstate) \<Rightarrow>
                    Inr (ret, logical_settings,
                         s'\<lparr>request_state := rstate, last_settings := last_settings'\<rparr>))))"

text \<open>The hand-over of a frame with settings to the sensor: both result shells are
  initialised and \<open>SetCurrentRequest\<close> latches the frame.\<close>

definition latch_request ::
  "hwl_env \<Rightarrow> PendingRequest \<Rightarrow> LogicalCameraSettings \<Rightarrow> Buffers option \<Rightarrow> Buffers option
     \<Rightarrow> hal_state \<Rightarrow> hal_state" where
  "latch_request env request logical_settings input_buffers output_buffers s =
     (case InitializeLogicalResult env (request_state s) (pr_pipeline_id request)
             (pr_frame_number request) True of
        (partial, rstate1) \<Rightarrow>
          (case InitializeLogicalResult env rstate1 (pr_pipeline_id request)
                  (pr_frame_number request) False of
             (result, rstate2) \<Rightarrow>
               SetCurrentRequest (Some logical_settings) result partial input_buffers
                 output_buffers (s\<lparr>request_state := rstate2\<rparr>)))"

text \<open>The \<open>kErrorResult\<close> notification of a frame that is not handed to the sensor; the
  buffers acquired for it are destroyed at the end of the block.\<close>

definition fail_result ::
  "PendingRequest \<Rightarrow> Buffers option \<Rightarrow> Buffers option \<Rightarrow> hal_state \<Rightarrow> fault + hal_state" where
  "fail_result request input_buffers output_buffers s =
     (case call_notify (pr_callback request) (pr_pipeline_id request)
             (ErrorMessage (pr_frame_number request) (- 1) kErrorResult) s of
        Inl f \<Rightarrow> Inl f
      | Inr s' \<Rightarrow>
          Inr (s'\<lparr>released := released s' @ buffers_of input_buffers
                               @ buffers_of output_buffers\<rparr>))"

text \<open>One pass of the body of \<open>RequestProcessorLoop\<close>, under \<open>process_mutex_\<close>: the
  request at the front of the queue, if any, is handed to the sensor or failed, and
  popped.\<close>

definition RequestProcessorLoop_body :: "hwl_env \<Rightarrow> hal_state \<Rightarrow> fault + hal_state" where
  "RequestProcessorLoop_body env s =
     (case pending_requests s of
        [] \<Rightarrow> Inr s
      | request # rest \<Rightarrow>
          (case AcquireBuffers env (pr_output_buffers request) of
             (output_buffers, dropped_out) \<Rightarrow>
               (case AcquireBuffers env (pr_input_buffers request) of
                  (input_buffers, dropped_in) \<Rightarrow>
                    (case (case output_buffers of
                             Some (ob # obs) \<Rightarrow>
                               (case frame_settings env request
                                       (physical_output_ids env (ob # obs))
                                       (s\<lparr>released := released s @ dropped_out @ dropped_in\<rparr>) of
                                  Inl f \<Rightarrow> Inl f
                                | Inr (ret, logical_settings, s') \<Rightarrow>
                                    if ret = OK
                                    then Inr (latch_request env request logical_settings
                                                input_buffers output_buffers s')
                                    else fail_result request input_buffers output_buffers s')
                           | _ \<Rightarrow>
                               fail_result request input_buffers output_buffers
                                 (s\<lparr>released := released s @ dropped_out @ dropped_in\<rparr>)) of
                       Inl f \<Rightarrow> Inl f
                     | Inr s'' \<Rightarrow> Inr (s''\<lparr>pending_requests := rest\<rparr>)))))"

subsection \<open>What other threads do while a thread waits\<close>

datatype action = ProcessorIteration | SensorStage1 | SensorRest loop_times

definition apply_action :: "hwl_env \<Rightarrow> action \<Rightarrow> hal_state \<Rightarrow> fault + hal_state" where
  "apply_action env a s =
     (case a of
        ProcessorIteration \<Rightarrow> RequestProcessorLoop_body env s
      | SensorStage1 \<Rightarrow> (if sensor_thread s = None then Inr (threadLoop_stage1 s) else Inr s)
      | SensorRest clk \<Rightarrow> threadLoop_rest env clk s)"

fun apply_actions :: "hwl_env \<Rightarrow> action list \<Rightarrow> hal_state \<Rightarrow> fault + hal_state" where
  "apply_actions env [] s = Inr s"
| "apply_actions env (a # acts) s =
     (case apply_action env a s of
        Inl f \<Rightarrow> Inl f
      | Inr s' \<Rightarrow> apply_actions env acts s')"

subsection \<open>ProcessPipelineRequests\<close>

datatype slot_wait = SlotFree | SlotTimedOut | StillWaiting

text \<open>
  The wait for a pending request slot. Each element of the list is one call of
  \<open>wait_for\<close>: what the other threads did while the caller was suspended, and whether
  the call returned \<open>timeout\<close>. \<open>StillWaiting\<close>: the list is used up and the caller is
  still suspended. The unused part of the list is returned.
\<close>

fun wait_for_slot ::
  "hwl_env \<Rightarrow> (action list \<times> bool) list \<Rightarrow> hal_state
     \<Rightarrow> fault + (slot_wait \<times> (action list \<times> bool) list \<times> hal_state)" where
  "wait_for_slot env [] s =
     (if length (pending_requests s) > unat kPipelineDepth then Inr (StillWaiting, [], s)
      else Inr (SlotFree, [], s))"
| "wait_for_slot env ((acts, timeout) # waits) s =
     (if length (pending_requests s) > unat kPipelineDepth
      then
        (case apply_actions env acts s of
           Inl f \<Rightarrow> Inl f
         | Inr s' \<Rightarrow>
             if timeout then Inr (SlotTimedOut, waits, s')
             else wait_for_slot env waits s')
      else Inr (SlotFree, (acts, timeout) # waits, s))"

text \<open>The settings pushed on \<open>override_settings_\<close> for a request: its settings when they
  carry one settings-override entry, a null entry when it has no settings.\<close>

definition queued_override :: "u32 \<Rightarrow> HalCameraMetadata option \<Rightarrow> OverrideSetting list" where
  "queued_override frame_number settings =
     (case settings of
        Some m \<Rightarrow>
          (case Get m ANDROID_CONTROL_SETTINGS_OVERRIDE of
             Some entry \<Rightarrow>
               if count entry = 1
               then [\<lparr>os_settings = Some m, os_frame_number = frame_number\<rparr>] else []
           | None \<Rightarrow> [])
      | None \<Rightarrow> [\<lparr>os_settings = None, os_frame_number = frame_number\<rparr>])"

text \<open>The body of the loop over the requests after the wait: the request is updated
  for dynamic streams, its sensor buffers are created, and it is pushed on the queues.
  (\<open>dynamic_stream_id_map\<close> and \<open>use_default_physical_camera\<close> only reach
  \<open>UpdateRequestForDynamicStreams\<close>, a parameter.)\<close>

definition admit ::
  "hwl_env \<Rightarrow> u32 \<Rightarrow> EmulatedPipeline list \<Rightarrow> HwlPipelineRequest \<Rightarrow> hal_state
     \<Rightarrow> fault + (status_t \<times> hal_state)" where
  "admit env frame_number pipelines request0 s =
     (case UpdateRequestForDynamicStreams env (request_state s) request0 of
        (res, request, rstate) \<Rightarrow>
          if res \<noteq> OK then Inr (res, s\<lparr>request_state := rstate\<rparr>)
          else if unat (req_pipeline_id request) \<ge> length pipelines then Inl OutOfRange
          else
            let pipeline = pipelines ! unat (req_pipeline_id request)
            in case CreateSensorBuffers env frame_number (req_output_buffers request)
                      (streams pipeline) (req_pipeline_id request) (cb pipeline) 0 0
                      (s\<lparr>request_state := rstate\<rparr>) of
                 Inl f \<Rightarrow> Inl f
               | Inr (None, s1) \<Rightarrow> Inr (NO_MEMORY, s1)
               | Inr (Some output_buffers, s1) \<Rightarrow>
                   (case CreateSensorBuffers env frame_number (req_input_buffers request)
                           (streams pipeline) (req_pipeline_id request) (cb pipeline)
                           (input_width request) (input_height request) s1 of
                      Inl f \<Rightarrow> Inl f
                    | Inr (input_buffers, s2) \<Rightarrow>
                        Inr (OK,
                             s2\<lparr> override_settings := override_settings s2 @
                                    queued_override frame_number (req_settings request),
                                 pending_requests := pending_requests s2 @
                                    [\<lparr> pr_frame_number = frame_number,
                                       pr_pipeline_id = req_pipeline_id request,
                                       pr_callback = cb pipeline,
                                       pr_settings = req_settings request,
                                       pr_input_buffers = input_buffers,
                                       pr_output_buffers = Some output_buffers \<rparr>] \<rparr>)))"

text \<open>\<open>ProcessPipelineRequests\<close>: the status returned, or \<open>None\<close> while the caller is
  still suspended; with it the unused waits and the state.\<close>

fun ProcessPipelineRequests ::
  "hwl_env \<Rightarrow> u32 \<Rightarrow> HwlPipelineRequest list \<Rightarrow> EmulatedPipeline list
     \<Rightarrow> (action list \<times> bool) list \<Rightarrow> hal_state
     \<Rightarrow> fault + (status_t option \<times> (action list \<times> bool) list \<times> hal_state)" where
  "ProcessPipelineRequests env frame_number [] pipelines waits s = Inr (Some OK, waits, s)"
| "ProcessPipelineRequests env frame_number (request # requests) pipelines waits s =
     (if unat (req_pipeline_id request) \<ge> length pipelines then Inr (Some BAD_VALUE, waits, s)
      else
        (case wait_for_slot env waits s of
           Inl f \<Rightarrow> Inl f
         | Inr (StillWaiting, waits', s') \<Rightarrow> Inr (None, waits', s')
         | Inr (SlotTimedOut, waits', s') \<Rightarrow> Inr (Some TIMED_OUT, waits', s')
         | Inr (SlotFree, waits', s') \<Rightarrow>
             (case admit env frame_number pipelines request s' of
                Inl f \<Rightarrow> Inl f
              | Inr (res, s'') \<Rightarrow>
                  if res \<noteq> OK then Inr (Some res, waits', s'')
                  else ProcessPipelineRequests env frame_number requests pipelines waits' s'')))"

subsection \<open>Flush\<close>

text \<open>The loop of \<open>EmulatedRequestProcessor::Flush\<close> over the pending requests: each is
  notified as failed and popped, which destroys its buffers.\<close>

fun flush_pending :: "PendingRequest list \<Rightarrow> hal_state \<Rightarrow> fault + hal_state" where
  "flush_pending [] s = Inr (s\<lparr>pending_requests := []\<rparr>)"
| "flush_pending (request # rest) s =
     (case NotifyFailedRequest request s of
        Inl f \<Rightarrow> Inl f
      | Inr (marked, s') \<Rightarrow>
          flush_pending rest
            (s'\<lparr> pending_requests := rest,
                 released := released s' @ buffers_of (pr_output_buffers marked)
                               @ buffers_of (pr_input_buffers marked) \<rparr>))"

text \<open>\<open>EmulatedRequestProcessor::Flush\<close>: first the sensor, then the pending requests.
  \<open>None\<close>: the caller is still waiting for the VSync.\<close>

definition Flush ::
  "hwl_env \<Rightarrow> (loop_times option \<times> wait_status) list \<Rightarrow> hal_state
     \<Rightarrow> (fault + (status_t \<times> hal_state)) option" where
  "Flush env waits s =
     (case Sensor_Flush env waits s of
        None \<Rightarrow> None
      | Some (Inl f) \<Rightarrow> Some (Inl f)
      | Some (Inr (ret, s')) \<Rightarrow>
          (case flush_pending (pending_requests s') s' of
             Inl f \<Rightarrow> Some (Inl f)
           | Inr s'' \<Rightarrow> Some (Inr (ret, s''))))"

section \<open>Reading the callback log\<close>

text \<open>The result calls of a log, each with the kind of the result passed and its frame
  number; the frame numbers of the shutter notifications; the error notifications.\<close>

fun result_calls :: "callback_event list \<Rightarrow> (result_kind \<times> u32) list" where
  "result_calls [] = []"
| "result_calls (NotifyCall f p m # es) = result_calls es"
| "result_calls (ResultCall f k r # es) = (k, res_frame_number r) # result_calls es"

fun shutter_calls :: "callback_event list \<Rightarrow> u32 list" where
  "shutter_calls [] = []"
| "shutter_calls (NotifyCall f p (ShutterMessage n t rt) # es) = n # shutter_calls es"
| "shutter_calls (NotifyCall f p (ErrorMessage n sid c) # es) = shutter_calls es"
| "shutter_calls (ResultCall f k r # es) = shutter_calls es"

fun error_calls :: "callback_event list \<Rightarrow> (u32 \<times> ErrorCode) list" where
  "error_calls [] = []"
| "error_calls (NotifyCall f p (ErrorMessage n sid c) # es) = (n, c) # error_calls es"
| "error_calls (NotifyCall f p (ShutterMessage n t rt) # es) = error_calls es"
| "error_calls (ResultCall f k r # es) = error_calls es"

fun is_result :: "callback_event \<Rightarrow> bool" where
  "is_result (ResultCall f k r) = True"
| "is_result (NotifyCall f p m) = False"

section \<open>The override queue\<close>


section \<open>Runs of the sensor loop\<close>

text \<open>A run of the sensor loop over a sequence of frames: before each iteration the
  frame is latched by \<open>SetCurrentRequest\<close> (an iteration with nothing to serve has
  \<open>no_request\<close> latched); each iteration comes with its clock readings.\<close>

fun sensor_run :: "hwl_env \<Rightarrow> (latched \<times> loop_times) list \<Rightarrow> hal_state \<Rightarrow> fault + hal_state" where
  "sensor_run env [] s = Inr s"
| "sensor_run env ((frame, clk) # frames) s =
     (case threadLoop env clk
             (SetCurrentRequest (l_settings frame) (l_result frame) (l_partial_result frame)
                (l_input_buffers frame) (l_output_buffers frame) s) of
        Inl f \<Rightarrow> Inl f
      | Inr s' \<Rightarrow> sensor_run env frames s')"

text \<open>
  The result calls a sequence of frames may give rise to: for each frame in turn,
  either none, or the final result alone, or the partial result followed at once by
  the final result.
\<close>

inductive results_of_frames :: "latched list \<Rightarrow> (result_kind \<times> u32) list \<Rightarrow> bool" where
  no_frames: "results_of_frames [] []"
| no_result: "results_of_frames frames rc \<Longrightarrow> results_of_frames (frame # frames) rc"
| final_only:
    "l_result frame = Some r \<Longrightarrow> results_of_frames frames rc \<Longrightarrow>
     results_of_frames (frame # frames) ((Final, res_frame_number r) # rc)"
| partial_then_final:
    "l_result frame = Some r \<Longrightarrow> l_partial_result frame = Some p \<Longrightarrow>
     results_of_frames frames rc \<Longrightarrow>
     results_of_frames (frame # frames)
       ((Partial, res_frame_number p) # (Final, res_frame_number r) # rc)"

text \<open>The frame numbers of the final results among some result calls.\<close>

definition final_frames :: "(result_kind \<times> u32) list \<Rightarrow> u32 list" where
  "final_frames rc = map snd (filter (\<lambda>c. fst c = Final) rc)"

text \<open>The frame number a latched frame carries in its final result shell.\<close>

definition frame_of :: "latched \<Rightarrow> u32 option" where
  "frame_of frame = map_option res_frame_number (l_result frame)"

text \<open>The buffers destroyed when a flushed request is popped: its output buffers,
  marked by \<open>NotifyFailedRequest\<close>, and its input buffers.\<close>

definition flushed_buffers :: "PendingRequest \<Rightarrow> SensorBuffer list" where
  "flushed_buffers request =
     map (\<lambda>b. b\<lparr>is_failed_request := True\<rparr>) (buffers_of (pr_output_buffers request))
       @ buffers_of (pr_input_buffers request)"

section \<open>Buffers and their status\<close>

definition all_error :: "SensorBuffer list \<Rightarrow> bool" where
  "all_error bufs = (\<forall>b \<in> set bufs. status (stream_buffer b) = kError)"

text \<open>The sensor buffers the processor and the sensor hold outside a synthesis: those
  of the queued requests, those latched in the sensor, and those of the JPEG jobs.\<close>

definition held_buffers :: "hal_state \<Rightarrow> SensorBuffer list" where
  "held_buffers s =
     concat (map (\<lambda>r. buffers_of (pr_output_buffers r) @ buffers_of (pr_input_buffers r))
               (pending_requests s))
       @ buffers_of (l_input_buffers (current s))
       @ buffers_of (l_output_buffers (current s))
       @ jpeg_jobs s"

text \<open>The buffers of the frame the sensor loop has taken.\<close>

definition thread_buffers :: "hal_state \<Rightarrow> SensorBuffer list" where
  "thread_buffers s =
     (case sensor_thread s of
        None \<Rightarrow> []
      | Some locals \<Rightarrow>
          buffers_of (l_input_buffers locals) @ buffers_of (l_output_buffers locals))"

text \<open>
  A buffer \<open>b\<close> leaves an iteration of the sensor loop on the locals \<open>locals\<close> after having
  been processed: it is an output buffer whose camera has settings and characteristics
  and whose synthesis succeeded, or an input buffer of a reprocess request (a request
  with a non-empty input buffer list); its status has been set to \<open>kOk\<close>.
\<close>

definition processed :: "hwl_env \<Rightarrow> LogicalCharacteristics \<Rightarrow> latched \<Rightarrow> SensorBuffer \<Rightarrow> bool" where
  "processed env chs locals b =
     ((\<exists>b0 \<in> set (buffers_of (l_output_buffers locals)).
         b = set_status kOk b0
         \<and> (case l_settings locals of
               None \<Rightarrow> False
             | Some settings \<Rightarrow>
                 (case map_of settings (camera_id b0) of
                    None \<Rightarrow> False
                  | Some device_settings \<Rightarrow>
                      (case map_of chs (camera_id b0) of
                         None \<Rightarrow> False
                       | Some device_chars \<Rightarrow>
                           synthesize env (set_status kOk b0) device_settings device_chars
                             (buffers_of (l_input_buffers locals) \<noteq> []) = Captured))))
      \<or> (\<exists>b0 \<in> set (buffers_of (l_input_buffers locals)). b = set_status kOk b0))"


text \<open>The invariant: every buffer held outside a synthesis, and every buffer of the
  frame the sensor loop has taken and not yet processed, carries \<open>kError\<close>.\<close>

definition status_inv :: "hal_state \<Rightarrow> bool" where
  "status_inv s = (all_error (held_buffers s) \<and> all_error (thread_buffers s))"

text \<open>
  The steps that move or destroy sensor buffers: the admission of a request by
  \<open>ProcessPipelineRequests\<close>; a pass of \<open>RequestProcessorLoop\<close> or a stage of
  \<open>threadLoop\<close>; and the two parts of a flush after its wait, in the sensor and in the
  request processor.
\<close>

datatype operation =
    Admit u32 "EmulatedPipeline list" HwlPipelineRequest
  | Act action
  | FlushCurrent
  | FlushPending

definition run_operation :: "hwl_env \<Rightarrow> operation \<Rightarrow> hal_state \<Rightarrow> fault + hal_state" where
  "run_operation env op s =
     (case op of
        Admit frame_number pipelines request \<Rightarrow>
          (case admit env frame_number pipelines request s of
             Inl f \<Rightarrow> Inl f
           | Inr (res, s') \<Rightarrow> Inr s')
      | Act a \<Rightarrow> apply_action env a s
      | FlushCurrent \<Rightarrow> Inr (flush_current s)
      | FlushPending \<Rightarrow> flush_pending (pending_requests s) s)"

section \<open>CameraDeviceSession: the imported buffer handle map\<close>

text \<open>\<open>BufferCache\<close>, the key of \<open>imported_buffer_handle_map_\<close>: \<open>BufferCacheHashing\<close>
  hashes its two members, the stream id and the buffer id.\<close>

record BufferCache =
  bc_stream_id :: int
  bc_buffer_id :: nat

type_synonym buffer_handle_t = nat

text \<open>
  Modelled from the spec: the body of \<open>AddImportedBufferHandlesLocked\<close> is not among the
  sources, which have its declaration in \<open>camera_device_session.h\<close> with the comment
  "Add a buffer handle to the imported buffer handle map. If the buffer cache is
  already in the map but the buffer handle doesn't match, it will return BAD_VALUE."
  The spec (4.1) adds: "Import is idempotent for identical (key, handle) pairs; a
  different handle for an existing key signals a protocol violation from the caller and
  must fail the operation without mutating state (preserve the original mapping)."
  The result is the status and the map.
\<close>

definition AddImportedBufferHandlesLocked ::
  "BufferCache \<Rightarrow> buffer_handle_t \<Rightarrow> (BufferCache \<rightharpoonup> buffer_handle_t)
     \<Rightarrow> status_t \<times> (BufferCache \<rightharpoonup> buffer_handle_t)" where
  "AddImportedBufferHandlesLocked buffer_cache buffer_handle imported_buffer_handle_map =
     (case imported_buffer_handle_map buffer_cache of
        None \<Rightarrow> (OK, imported_buffer_handle_map(buffer_cache \<mapsto> buffer_handle))
      | Some imported \<Rightarrow>
          if imported = buffer_handle then (OK, imported_buffer_handle_map)
          else (BAD_VALUE, imported_buffer_handle_map))"
section \<open>Concrete inputs\<close>

definition hal_init :: hal_state where
  "hal_init =
     \<lparr> pending_requests = [], override_settings = [], last_settings = None,
       last_override_settings = None, request_state = 0, current = no_request,
       got_vsync = False, next_capture_time = 0, next_readout_time = 0,
       chars = [(0, \<lparr>sc_width = 640, sc_height = 480, quad_bayer_sensor = False\<rparr>)],
       logical_camera_id = 0, sensor_thread = None, callback_log = [], jpeg_jobs = [],
       released = [], returned_stream_buffers = [] \<rparr>"

text \<open>Settings that switch the zoom override on, and plain request settings.\<close>

definition zoom_settings :: HalCameraMetadata where
  "zoom_settings =
     [(ANDROID_CONTROL_SETTINGS_OVERRIDE, \<lparr>etype = TYPE_INT32, edata = [1]\<rparr>),
      (ANDROID_CONTROL_ZOOM_RATIO, \<lparr>etype = TYPE_FLOAT, edata = [2]\<rparr>)]"

definition plain_settings :: HalCameraMetadata where
  "plain_settings = [(ANDROID_CONTROL_ZOOM_RATIO, \<lparr>etype = TYPE_FLOAT, edata = [1]\<rparr>)]"

text \<open>Settings whose override entry is OFF.\<close>

definition off_settings :: HalCameraMetadata where
  "off_settings =
     [(ANDROID_CONTROL_SETTINGS_OVERRIDE, \<lparr>etype = TYPE_INT32, edata = [0]\<rparr>)]"




text \<open>Collaborators that always succeed: every lock, fence and settings conversion is
  fine, and every buffer is captured.\<close>

definition settings_one :: LogicalCameraSettings where
  "settings_one =
     [(0, \<lparr>exposure_time = 10000000, frame_duration = 33333333, timestamp_source = 0,
           report_noise_profile = False\<rparr>)]"

definition result_shell :: "u32 \<Rightarrow> u32 \<Rightarrow> bool \<Rightarrow> HwlPipelineResult" where
  "result_shell pipeline frame_number partial =
     \<lparr> res_camera_id = 0, res_pipeline_id = pipeline, res_frame_number = frame_number,
       result_metadata = Some [], partial_result = (if partial then 1 else 0),
       physical_camera_results = [] \<rparr>"

definition env_ok :: hwl_env where
  "env_ok =
     \<lparr> synthesize = (\<lambda>b st ch r. Captured),
       fill_logical_metadata = (\<lambda>st ch r m. m),
       fill_physical_metadata = (\<lambda>st m. m),
       kZoomSpeedup = 2,
       processor_camera_id = 0,
       UpdateRequestForDynamicStreams = (\<lambda>rstate r. (OK, r, rstate)),
       sensor_settings_of = (\<lambda>rstate m ids n. (OK, settings_one, rstate)),
       InitializeLogicalResult =
         (\<lambda>rstate pipeline n partial. (Some (result_shell pipeline n partial), rstate)),
       request_stream_buffers = None,
       return_stream_buffers = None,
       LockSensorBuffer = (\<lambda>st h w ht. OK),
       importFence = (\<lambda>fence. (True, 5)),
       OverrideFormat = (\<lambda>fmt. fmt),
       sync_wait = (\<lambda>fd. OK) \<rparr>"

definition client_callback :: HwlPipelineCallback where
  "client_callback =
     \<lparr> process_pipeline_result = Some 1, process_pipeline_batch_result = Some 2,
       notify = Some 3 \<rparr>"

definition stream_zero :: EmulatedStream where
  "stream_zero =
     \<lparr> es_width = 640, es_height = 480, override_format = 35, es_is_input = False,
       is_physical_camera_stream = False, physical_camera_id = 0 \<rparr>"

definition pipelines_one :: "EmulatedPipeline list" where
  "pipelines_one = [\<lparr> cb = client_callback, streams = [(0, stream_zero)] \<rparr>]"

definition output_buffer_zero :: StreamBuffer where
  "output_buffer_zero =
     \<lparr> stream_id = 0, buffer_id = 1, buffer = Some 100, status = kOk, acquire_fence = None \<rparr>"

text \<open>A request for pipeline 0 with one output buffer and the given settings, and one
  for a pipeline that does not exist.\<close>

definition request_with :: "HalCameraMetadata option \<Rightarrow> HwlPipelineRequest" where
  "request_with settings =
     \<lparr> req_pipeline_id = 0, req_settings = settings, req_input_buffers = [],
       req_output_buffers = [output_buffer_zero], input_width = 0, input_height = 0 \<rparr>"

definition good_request :: HwlPipelineRequest where
  "good_request = request_with (Some zoom_settings)"

definition bad_pipeline_request :: HwlPipelineRequest where
  "bad_pipeline_request = good_request\<lparr>req_pipeline_id := 9\<rparr>"

text \<open>The queue entry of frame \<open>n\<close> for \<open>good_request\<close>.\<close>

definition pending_of :: "u32 \<Rightarrow> PendingRequest" where
  "pending_of n =
     \<lparr> pr_frame_number = n, pr_pipeline_id = 0, pr_callback = client_callback,
       pr_settings = Some zoom_settings, pr_input_buffers = None,
       pr_output_buffers = Some [new_sensor_buffer env_ok n stream_zero 0 client_callback
                                   output_buffer_zero 0 0] \<rparr>"

text \<open>The status a call of \<open>ProcessPipelineRequests\<close> returned (\<open>None\<close>: it has not
  returned) and the state it left.\<close>

definition returned ::
  "fault + (status_t option \<times> (action list \<times> bool) list \<times> hal_state) \<Rightarrow> status_t option" where
  "returned r = (case r of Inl f \<Rightarrow> None | Inr (st, waits, s) \<Rightarrow> st)"

definition left ::
  "fault + (status_t option \<times> (action list \<times> bool) list \<times> hal_state) \<Rightarrow> hal_state" where
  "left r = (case r of Inl f \<Rightarrow> hal_init | Inr (st, waits, s) \<Rightarrow> s)"

text \<open>The submission of frame \<open>n\<close> as one request, with no other thread running.\<close>

definition submit :: "u32 \<Rightarrow> hal_state \<Rightarrow> hal_state" where
  "submit n s = left (ProcessPipelineRequests env_ok n [good_request] pipelines_one [] s)"

definition four_pending :: hal_state where
  "four_pending = submit 4 (submit 3 (submit 2 (submit 1 hal_init)))"

text \<open>The state a step left; a step that ends in a fault leaves none, and \<open>hal_init\<close>
  stands in for it.\<close>

definition the_state :: "fault + hal_state \<Rightarrow> hal_state" where
  "the_state r = (case r of Inl f \<Rightarrow> hal_init | Inr s \<Rightarrow> s)"

definition clock_zero :: loop_times where
  "clock_zero = \<lparr> start_real_time = 0, work_done_real_time = 1000000 \<rparr>"

text \<open>One pass of \<open>RequestProcessorLoop\<close> followed by the iteration of the sensor loop
  that its wait for the VSync lets through.\<close>

definition served :: "hal_state \<Rightarrow> hal_state" where
  "served s = the_state (threadLoop env_ok clock_zero (the_state (RequestProcessorLoop_body env_ok s)))"

text \<open>Two pipelines, and one call of \<open>ProcessPipelineRequests\<close> for frame 7 with one
  request for each; the state the call leaves, and the state after both requests have
  been served.\<close>

definition pipelines_two :: "EmulatedPipeline list" where
  "pipelines_two = [\<lparr> cb = client_callback, streams = [(0, stream_zero)] \<rparr>,
                    \<lparr> cb = client_callback, streams = [(0, stream_zero)] \<rparr>]"

definition requests_of_frame :: "HwlPipelineRequest list" where
  "requests_of_frame = [good_request, good_request\<lparr>req_pipeline_id := 1\<rparr>]"

definition two_in_one_call :: hal_state where
  "two_in_one_call =
     left (ProcessPipelineRequests env_ok 7 requests_of_frame pipelines_two [] hal_init)"

definition both_served :: hal_state where
  "both_served = served (served two_in_one_call)"

text \<open>Frame 1 submitted with the given settings and served, then frame 2 submitted
  without settings (a repeating request).\<close>

definition repeating_after :: "HalCameraMetadata \<Rightarrow> hal_state" where
  "repeating_after settings =
     left (ProcessPipelineRequests env_ok 2 [request_with None] pipelines_one []
             (served (left (ProcessPipelineRequests env_ok 1 [request_with (Some settings)]
                              pipelines_one [] hal_init))))"

text \<open>A frame as \<open>RequestProcessorLoop\<close> latches it: frame number \<open>n\<close>, one output buffer
  carrying the callback \<open>cbk\<close>, settings with the given frame duration, and both result
  shells.\<close>

definition frame_for :: "HwlPipelineCallback \<Rightarrow> int \<Rightarrow> u32 \<Rightarrow> latched" where
  "frame_for cbk duration n =
     \<lparr> l_settings = Some [(0, \<lparr>exposure_time = 10000000, frame_duration = duration,
                                timestamp_source = 0, report_noise_profile = False\<rparr>)],
       l_result = Some (result_shell 0 n False),
       l_input_buffers = None,
       l_output_buffers =
         Some [new_sensor_buffer env_ok n stream_zero 0 cbk output_buffer_zero 0 0],
       l_partial_result = Some (result_shell 0 n True) \<rparr>"

text \<open>Two frames: frame 1 lasts 33 ms, so that its results are returned under the tight
  deadline; frame 2 lasts 200 ms, so that they are returned after the sleep.\<close>

definition two_frames :: "(latched \<times> loop_times) list" where
  "two_frames =
     [(frame_for client_callback 33333333 1, clock_zero),
      (frame_for client_callback 200000000 2, clock_zero)]"

text \<open>A callback that delivers results and has no \<open>notify\<close>.\<close>

definition results_only_callback :: HwlPipelineCallback where
  "results_only_callback =
     \<lparr> process_pipeline_result = Some 1, process_pipeline_batch_result = None,
       notify = None \<rparr>"

text \<open>The same pipeline with that callback, and the state after frame 1 has been
  submitted to it, handed to the sensor by the request loop, and served by one
  iteration of the sensor loop.\<close>

definition pipelines_results_only :: "EmulatedPipeline list" where
  "pipelines_results_only = [\<lparr> cb = results_only_callback, streams = [(0, stream_zero)] \<rparr>]"

definition served_without_notify :: hal_state where
  "served_without_notify =
     the_state (threadLoop env_ok clock_zero
       (the_state (RequestProcessorLoop_body env_ok
          (left (ProcessPipelineRequests env_ok 1 [good_request] pipelines_results_only []
                   hal_init)))))"

text \<open>Frames 1, 2 and 3 submitted; frame 1 handed to the sensor and taken by the sensor
  loop, which is synthesizing it; frames 2 and 3 still queued.\<close>

definition mid_synthesis :: hal_state where
  "mid_synthesis =
     threadLoop_stage1
       (the_state (RequestProcessorLoop_body env_ok (submit 3 (submit 2 (submit 1 hal_init)))))"





text \<open>Buffer 1 of stream 0, and a map in which it is imported with handle 100.\<close>

definition cache_key :: BufferCache where
  "cache_key = \<lparr> bc_stream_id = 0, bc_buffer_id = 1 \<rparr>"

definition one_imported :: "BufferCache \<rightharpoonup> buffer_handle_t" where
  "one_imported = snd (AddImportedBufferHandlesLocked cache_key 100 Map.empty)"
section \<open>Properties of RealtimeProcessBlock\<close>






section \<open>Properties of the deferred override settings\<close>







section \<open>Properties of request admission\<close>

lemma CreateSensorBuffers_queues:
  "CreateSensorBuffers env fn bufs strs p c ow oh s = Inr (r, s') \<Longrightarrow>
   pending_requests s' = pending_requests s \<and> override_settings s' = override_settings s"
  by (auto simp: CreateSensorBuffers_def Let_def split: if_splits sum.splits)

lemma admit_queues:
  assumes "admit env fn pl r s = Inr (res, s')"
  shows "(res = OK \<longrightarrow> (\<exists>x. pending_requests s' = pending_requests s @ [x])
                      \<and> (\<exists>added. override_settings s' = override_settings s @ added))
       \<and> (res \<noteq> OK \<longrightarrow> pending_requests s' = pending_requests s
                      \<and> override_settings s' = override_settings s)"
  using assms
  by (auto simp: admit_def Let_def split: prod.splits if_splits sum.splits option.splits
      dest!: CreateSensorBuffers_queues)

lemma return_stage_pending:
  "return_stage env clk locals cbk rr leftover s = Inr s' \<Longrightarrow>
   pending_requests s' = pending_requests s"
  by (auto simp: return_stage_def split: if_splits sum.splits)

lemma threadLoop_body_pending:
  "threadLoop_body env clk locals s = Inr s' \<Longrightarrow> pending_requests s' = pending_requests s"
  by (auto simp: threadLoop_body_def split: sum.splits prod.splits dest!: return_stage_pending)

lemma threadLoop_rest_pending:
  "threadLoop_rest env clk s = Inr s' \<Longrightarrow> pending_requests s' = pending_requests s"
  by (auto simp: threadLoop_rest_def split: option.splits dest!: threadLoop_body_pending)

lemma ApplyOverrideSettings_pending:
  "ApplyOverrideSettings W f rs s = Inr (n, rs', s') \<Longrightarrow> pending_requests s' = pending_requests s"
  by (auto simp: ApplyOverrideSettings_def split: option.splits sum.splits)

lemma frame_settings_pending:
  "frame_settings env request ids s = Inr (ret, ls, s') \<Longrightarrow>
   pending_requests s' = pending_requests s"
  by (auto simp: frame_settings_def split: option.splits sum.splits prod.splits
      dest!: ApplyOverrideSettings_pending)

lemma latch_request_pending:
  "pending_requests (latch_request env request ls ib ob s) = pending_requests s"
  by (simp add: latch_request_def SetCurrentRequest_def split: prod.splits)

lemma fail_result_pending:
  "fail_result request ib ob s = Inr s' \<Longrightarrow> pending_requests s' = pending_requests s"
  by (auto simp: fail_result_def call_notify_def split: option.splits sum.splits)

lemma RequestProcessorLoop_body_pending:
  "RequestProcessorLoop_body env s = Inr s' \<Longrightarrow> pending_requests s' = tl (pending_requests s)"
  by (auto simp: RequestProcessorLoop_body_def latch_request_pending
      split: list.splits prod.splits option.splits sum.splits if_splits
      dest!: frame_settings_pending fail_result_pending)

lemma apply_action_pending:
  "apply_action env a s = Inr s' \<Longrightarrow>
   length (pending_requests s') \<le> length (pending_requests s)"
  by (cases a)
     (auto simp: apply_action_def threadLoop_stage1_def split: if_splits
       dest!: RequestProcessorLoop_body_pending threadLoop_rest_pending)

lemma apply_actions_pending:
  "apply_actions env acts s = Inr s' \<Longrightarrow>
   length (pending_requests s') \<le> length (pending_requests s)"
proof (induction acts arbitrary: s)
  case Nil
  then show ?case by simp
next
  case (Cons a acts)
  then obtain s1 where 1: "apply_action env a s = Inr s1" and 2: "apply_actions env acts s1 = Inr s'"
    by (auto split: sum.splits)
  from apply_action_pending[OF 1] Cons.IH[OF 2] show ?case by simp
qed

lemma wait_for_slot_pending:
  "wait_for_slot env waits s = Inr (w, waits', s') \<Longrightarrow>
   length (pending_requests s') \<le> length (pending_requests s)
   \<and> (w = SlotFree \<longrightarrow> length (pending_requests s') \<le> unat kPipelineDepth)"
proof (induction waits arbitrary: s)
  case Nil
  then show ?case by (auto split: if_splits)
next
  case (Cons a waits)
  obtain acts timeout where a: "a = (acts, timeout)" by (cases a)
  show ?case
  proof (cases "length (pending_requests s) > unat kPipelineDepth")
    case False
    with Cons.prems a show ?thesis by auto
  next
    case True
    with Cons.prems a obtain s1 where 1: "apply_actions env acts s = Inr s1"
      by (auto split: sum.splits)
    show ?thesis
    proof (cases timeout)
      case True
      with Cons.prems a \<open>length (pending_requests s) > unat kPipelineDepth\<close> 1
      show ?thesis using apply_actions_pending[OF 1] by auto
    next
      case False
      with Cons.prems a \<open>length (pending_requests s) > unat kPipelineDepth\<close> 1
      have "wait_for_slot env waits s1 = Inr (w, waits', s')" by auto
      from Cons.IH[OF this] apply_actions_pending[OF 1] show ?thesis by auto
    qed
  qed
qed

lemma ProcessPipelineRequests_bounded:
  "ProcessPipelineRequests env fn reqs pl waits s = Inr (r, waits', s') \<Longrightarrow>
   length (pending_requests s) \<le> unat kPipelineDepth + 1 \<Longrightarrow>
   length (pending_requests s') \<le> unat kPipelineDepth + 1"
proof (induction reqs arbitrary: waits s)
  case Nil
  then show ?case by simp
next
  case (Cons req reqs)
  show ?case
  proof (cases "unat (req_pipeline_id req) \<ge> length pl")
    case True
    with Cons.prems show ?thesis by simp
  next
    case False
    with Cons.prems obtain w ws1 s1 where w: "wait_for_slot env waits s = Inr (w, ws1, s1)"
      by (auto split: sum.splits)
    note b = wait_for_slot_pending[OF w]
    show ?thesis
    proof (cases w)
      case SlotFree
      with Cons.prems False w obtain res s2 where ad: "admit env fn pl req s1 = Inr (res, s2)"
        by (auto split: sum.splits)
      note q = admit_queues[OF ad]
      show ?thesis
      proof (cases "res = OK")
        case True
        with Cons.prems False w SlotFree ad
        have "ProcessPipelineRequests env fn reqs pl ws1 s2 = Inr (r, waits', s')" by simp
        moreover from q True b SlotFree have "length (pending_requests s2) \<le> unat kPipelineDepth + 1"
          by auto
        ultimately show ?thesis by (rule Cons.IH)
      next
        case False
        with Cons.prems \<open>\<not> unat (req_pipeline_id req) \<ge> length pl\<close> w SlotFree ad q b
        show ?thesis by auto
      qed
    next
      case SlotTimedOut
      with Cons.prems False w b show ?thesis by auto
    next
      case StillWaiting
      with Cons.prems False w b show ?thesis by auto
    qed
  qed
qed

lemma depth3: "unat kPipelineDepth = 3"
  by (simp add: kPipelineDepth_def)

lemma admit_good:
  "admit env_ok n pipelines_one good_request s =
     Inr (OK, s\<lparr> override_settings := override_settings s @
                    [\<lparr>os_settings = Some zoom_settings, os_frame_number = n\<rparr>],
                 pending_requests := pending_requests s @ [pending_of n] \<rparr>)"
  by (simp add: admit_def env_ok_def good_request_def request_with_def pipelines_one_def
      CreateSensorBuffers_def output_buffer_zero_def CreateSensorBuffer_def
      import_acquire_fence_def queued_override_def zoom_settings_def Get_def count_def
      pending_of_def Let_def)

lemma submit_admits:
  "length (pending_requests s) \<le> 3 \<Longrightarrow>
   ProcessPipelineRequests env_ok n [good_request] pipelines_one [] s =
     Inr (Some OK, [], s\<lparr> override_settings := override_settings s @
                    [\<lparr>os_settings = Some zoom_settings, os_frame_number = n\<rparr>],
                 pending_requests := pending_requests s @ [pending_of n] \<rparr>)"
  by (simp add: admit_good depth3) (simp add: good_request_def request_with_def pipelines_one_def)

lemma submit_eq:
  "length (pending_requests s) \<le> 3 \<Longrightarrow>
   submit n s = s\<lparr> override_settings := override_settings s @
                    [\<lparr>os_settings = Some zoom_settings, os_frame_number = n\<rparr>],
                 pending_requests := pending_requests s @ [pending_of n] \<rparr>"
  unfolding submit_def by (simp only: submit_admits) (simp add: left_def)

lemma four_pending_eq:
  "four_pending = hal_init\<lparr> override_settings :=
        [\<lparr>os_settings = Some zoom_settings, os_frame_number = 1\<rparr>,
         \<lparr>os_settings = Some zoom_settings, os_frame_number = 2\<rparr>,
         \<lparr>os_settings = Some zoom_settings, os_frame_number = 3\<rparr>,
         \<lparr>os_settings = Some zoom_settings, os_frame_number = 4\<rparr>],
      pending_requests := [pending_of 1, pending_of 2, pending_of 3, pending_of 4] \<rparr>"
proof -
  have 0: "pending_requests hal_init = []" "override_settings hal_init = []"
    by (simp_all add: hal_init_def)
  have 1: "submit 1 hal_init = hal_init\<lparr> override_settings :=
        [\<lparr>os_settings = Some zoom_settings, os_frame_number = 1\<rparr>],
      pending_requests := [pending_of 1] \<rparr>"
    using 0 by (simp add: submit_eq)
  have 2: "submit 2 (submit 1 hal_init) = hal_init\<lparr> override_settings :=
        [\<lparr>os_settings = Some zoom_settings, os_frame_number = 1\<rparr>,
         \<lparr>os_settings = Some zoom_settings, os_frame_number = 2\<rparr>],
      pending_requests := [pending_of 1, pending_of 2] \<rparr>"
    unfolding 1 by (simp add: submit_eq)
  have 3: "submit 3 (submit 2 (submit 1 hal_init)) = hal_init\<lparr> override_settings :=
        [\<lparr>os_settings = Some zoom_settings, os_frame_number = 1\<rparr>,
         \<lparr>os_settings = Some zoom_settings, os_frame_number = 2\<rparr>,
         \<lparr>os_settings = Some zoom_settings, os_frame_number = 3\<rparr>],
      pending_requests := [pending_of 1, pending_of 2, pending_of 3] \<rparr>"
    unfolding 2 by (simp add: submit_eq)
  show ?thesis
    unfolding four_pending_def 3 by (simp add: submit_eq)
qed

text \<open>
  C1, as stated, fails: the guard of the wait is \<open>pending_requests_.size() >
  kPipelineDepth\<close>, so a submission that finds exactly \<open>kPipelineDepth\<close> requests queued
  is admitted. Four frames submitted one after the other, with no other thread
  running, all return OK and leave four requests in the queue; \<open>kPipelineDepth\<close> is 3.
\<close>

theorem C1_queue_exceeds_depth:
  "returned (ProcessPipelineRequests env_ok 1 [good_request] pipelines_one [] hal_init) = Some OK
   \<and> returned (ProcessPipelineRequests env_ok 2 [good_request] pipelines_one []
         (submit 1 hal_init)) = Some OK
   \<and> returned (ProcessPipelineRequests env_ok 3 [good_request] pipelines_one []
         (submit 2 (submit 1 hal_init))) = Some OK
   \<and> returned (ProcessPipelineRequests env_ok 4 [good_request] pipelines_one []
         (submit 3 (submit 2 (submit 1 hal_init)))) = Some OK
   \<and> length (pending_requests four_pending) = 4
   \<and> unat kPipelineDepth = 3"
proof -
  have 0: "pending_requests hal_init = []"
    by (simp add: hal_init_def)
  have 1: "length (pending_requests (submit 1 hal_init)) = 1"
    using 0 by (simp add: submit_eq)
  have 2: "length (pending_requests (submit 2 (submit 1 hal_init))) = 2"
    using 1 by (simp add: submit_eq)
  have 3: "length (pending_requests (submit 3 (submit 2 (submit 1 hal_init)))) = 3"
    using 2 by (simp add: submit_eq)
  have 4: "length (pending_requests four_pending) = 4"
    by (simp add: four_pending_eq)
  show ?thesis
    using 0 1 2 3 4
    by (simp add: submit_admits returned_def depth3 del: ProcessPipelineRequests.simps)
qed

text \<open>
  C1, amended. The queue never holds more than \<open>kPipelineDepth + 1\<close> requests: a call
  of \<open>ProcessPipelineRequests\<close> keeps that bound, whatever the other threads do during
  its waits, and the other threads never make the queue longer. A submission that
  finds more than \<open>kPipelineDepth\<close> requests queued is suspended; when its wait times
  out the call returns TIMED_OUT, and after any other wake-up it tests the queue
  again.
\<close>

theorem C1_queue_bound:
  "(length (pending_requests s) \<le> unat kPipelineDepth + 1
      \<and> ProcessPipelineRequests env fn reqs pl waits s = Inr (r, waits', s')
      \<longrightarrow> length (pending_requests s') \<le> unat kPipelineDepth + 1)
   \<and> (apply_actions env acts s = Inr t \<longrightarrow>
        length (pending_requests t) \<le> length (pending_requests s))
   \<and> (length (pending_requests s) > unat kPipelineDepth
        \<and> unat (req_pipeline_id req) < length pl \<longrightarrow>
        ProcessPipelineRequests env fn (req # reqs) pl [] s = Inr (None, [], s)
        \<and> ProcessPipelineRequests env fn (req # reqs) pl ((acts, True) # waits) s
            = (case apply_actions env acts s of
                 Inl f \<Rightarrow> Inl f
               | Inr s2 \<Rightarrow> Inr (Some TIMED_OUT, waits, s2))
        \<and> ProcessPipelineRequests env fn (req # reqs) pl ((acts, False) # waits) s
            = (case apply_actions env acts s of
                 Inl f \<Rightarrow> Inl f
               | Inr s2 \<Rightarrow> ProcessPipelineRequests env fn (req # reqs) pl waits s2))"
proof (intro conjI impI)
  assume "length (pending_requests s) \<le> unat kPipelineDepth + 1
      \<and> ProcessPipelineRequests env fn reqs pl waits s = Inr (r, waits', s')"
  then show "length (pending_requests s') \<le> unat kPipelineDepth + 1"
    using ProcessPipelineRequests_bounded by blast
next
  assume "apply_actions env acts s = Inr t"
  then show "length (pending_requests t) \<le> length (pending_requests s)"
    by (rule apply_actions_pending)
next
  assume a: "length (pending_requests s) > unat kPipelineDepth
        \<and> unat (req_pipeline_id req) < length pl"
  then show "ProcessPipelineRequests env fn (req # reqs) pl [] s = Inr (None, [], s)"
    by simp
  from a show "ProcessPipelineRequests env fn (req # reqs) pl ((acts, True) # waits) s
            = (case apply_actions env acts s of
                 Inl f \<Rightarrow> Inl f
               | Inr s2 \<Rightarrow> Inr (Some TIMED_OUT, waits, s2))"
    by (simp split: sum.splits)
  from a show "ProcessPipelineRequests env fn (req # reqs) pl ((acts, False) # waits) s
            = (case apply_actions env acts s of
                 Inl f \<Rightarrow> Inl f
               | Inr s2 \<Rightarrow> ProcessPipelineRequests env fn (req # reqs) pl waits s2)"
    by (simp split: sum.splits)
qed

theorem C1_queue_bound_witness:
  "length (pending_requests four_pending) \<le> unat kPipelineDepth + 1
   \<and> unat kPipelineDepth < length (pending_requests four_pending)
   \<and> unat (req_pipeline_id good_request) < length pipelines_one
   \<and> ProcessPipelineRequests env_ok 5 [good_request] pipelines_one [] four_pending
       = Inr (None, [], four_pending)
   \<and> ProcessPipelineRequests env_ok 5 [good_request] pipelines_one [([], True)] four_pending
       = Inr (Some TIMED_OUT, [], four_pending)"
proof -
  have len: "length (pending_requests four_pending) = 4"
    by (simp add: four_pending_eq)
  have full: "unat kPipelineDepth < length (pending_requests four_pending)"
    by (simp add: len depth3)
  have pid: "unat (req_pipeline_id good_request) < length pipelines_one"
    by (simp add: good_request_def request_with_def pipelines_one_def)
  have quiet: "apply_actions env_ok [] four_pending = Inr four_pending"
    by simp
  note inst = C1_queue_bound [where s = four_pending and env = env_ok and fn = 5
      and req = good_request and reqs = "[]" and pl = pipelines_one and acts = "[]"
      and waits = "[]" and r = "Some TIMED_OUT" and waits' = "[]" and s' = four_pending
      and t = four_pending]
  from inst full pid quiet
  have blocked: "ProcessPipelineRequests env_ok 5 [good_request] pipelines_one [] four_pending
       = Inr (None, [], four_pending)"
    and timed_out: "ProcessPipelineRequests env_ok 5 [good_request] pipelines_one [([], True)]
        four_pending = Inr (Some TIMED_OUT, [], four_pending)"
    by simp_all
  from len have bound: "length (pending_requests four_pending) \<le> unat kPipelineDepth + 1"
    by (simp add: depth3)
  show ?thesis
    using bound full pid blocked timed_out by simp
qed

lemma ProcessPipelineRequests_append:
  "ProcessPipelineRequests env fn (xs @ ys) pl waits s =
     (case ProcessPipelineRequests env fn xs pl waits s of
        Inl f \<Rightarrow> Inl f
      | Inr (r, waits', s') \<Rightarrow>
          if r = Some OK then ProcessPipelineRequests env fn ys pl waits' s'
          else Inr (r, waits', s'))"
proof (induction xs arbitrary: waits s)
  case Nil
  then show ?case by simp
next
  case (Cons x xs)
  show ?case
    by (simp add: Cons.IH split: sum.splits slot_wait.splits prod.splits)
qed

lemma wait_for_slot_quiet:
  "\<forall>w \<in> set waits. fst w = [] \<Longrightarrow> wait_for_slot env waits s = Inr (w, waits', s') \<Longrightarrow>
   s' = s \<and> (\<forall>w \<in> set waits'. fst w = [])"
proof (induction waits arbitrary: s)
  case Nil
  then show ?case by (auto split: if_splits)
next
  case (Cons a waits)
  then show ?case
    by (cases a) (auto split: if_splits)
qed

lemma ProcessPipelineRequests_quiet_failure:
  assumes "\<forall>w \<in> set waits. fst w = []"
    and "ProcessPipelineRequests env fn [req] pl waits s = Inr (Some err, waits', s')"
    and "err \<noteq> OK"
  shows "pending_requests s' = pending_requests s \<and> override_settings s' = override_settings s"
proof (cases "unat (req_pipeline_id req) \<ge> length pl")
  case True
  with assms show ?thesis by simp
next
  case False
  with assms obtain w ws1 s1 where w: "wait_for_slot env waits s = Inr (w, ws1, s1)"
    by (auto split: sum.splits)
  from wait_for_slot_quiet[OF assms(1) w] have s1: "s1 = s" by simp
  show ?thesis
  proof (cases w)
    case SlotFree
    with assms False w obtain res s2 where ad: "admit env fn pl req s1 = Inr (res, s2)"
      by (auto split: sum.splits)
    with assms False w SlotFree have "res = err" "s2 = s'"
      by (auto split: if_splits)
    with admit_queues[OF ad] assms(3) s1 show ?thesis by simp
  next
    case SlotTimedOut
    with assms False w s1 show ?thesis by auto
  next
    case StillWaiting
    with assms False w s1 show ?thesis by auto
  qed
qed

lemma ProcessPipelineRequests_quiet_admitted:
  "\<forall>w \<in> set waits. fst w = [] \<Longrightarrow>
   ProcessPipelineRequests env fn reqs pl waits s = Inr (Some OK, waits', s') \<Longrightarrow>
   length (pending_requests s') = length (pending_requests s) + length reqs
   \<and> take (length (pending_requests s)) (pending_requests s') = pending_requests s
   \<and> (\<exists>added. override_settings s' = override_settings s @ added)
   \<and> (\<forall>w \<in> set waits'. fst w = [])"
proof (induction reqs arbitrary: waits s)
  case Nil
  then show ?case by simp
next
  case (Cons req reqs)
  from Cons.prems have valid: "\<not> unat (req_pipeline_id req) \<ge> length pl"
    by (auto split: if_splits)
  with Cons.prems obtain w ws1 s1 where w: "wait_for_slot env waits s = Inr (w, ws1, s1)"
    by (auto split: sum.splits)
  from wait_for_slot_quiet[OF Cons.prems(1) w]
  have s1: "s1 = s" and q1: "\<forall>w \<in> set ws1. fst w = []" by simp_all
  from Cons.prems valid w have free: "w = SlotFree"
    by (cases w) auto
  with Cons.prems valid w obtain res s2 where ad: "admit env fn pl req s1 = Inr (res, s2)"
    by (auto split: sum.splits)
  with Cons.prems valid w free have ok: "res = OK"
    and rest: "ProcessPipelineRequests env fn reqs pl ws1 s2 = Inr (Some OK, waits', s')"
    by (auto split: if_splits)
  from admit_queues[OF ad] ok s1 obtain x added where
    p2: "pending_requests s2 = pending_requests s @ [x]"
    and o2: "override_settings s2 = override_settings s @ added"
    by auto
  from Cons.IH[OF q1 rest] p2 o2 show ?case
    by (auto simp: take_Suc_conv_app_nth dest: arg_cong[where f = "take (length (pending_requests s))"])
qed

lemma four_admitted:
  "ProcessPipelineRequests env_ok 7 [good_request, good_request, good_request, good_request]
     pipelines_one [([], True)] hal_init =
     Inr (Some OK, [([], True)],
          hal_init\<lparr> override_settings :=
                       [\<lparr>os_settings = Some zoom_settings, os_frame_number = 7\<rparr>,
                        \<lparr>os_settings = Some zoom_settings, os_frame_number = 7\<rparr>,
                        \<lparr>os_settings = Some zoom_settings, os_frame_number = 7\<rparr>,
                        \<lparr>os_settings = Some zoom_settings, os_frame_number = 7\<rparr>],
                    pending_requests :=
                       [pending_of 7, pending_of 7, pending_of 7, pending_of 7] \<rparr>)"
proof -
  have valid: "\<not> length pipelines_one \<le> unat (req_pipeline_id good_request)"
    by (simp add: good_request_def request_with_def pipelines_one_def)
  show ?thesis
    by (simp add: valid admit_good depth3) (simp add: hal_init_def)
qed

text \<open>The four ways in which the admission of one request fails: an invalid pipeline
  id, a wait that times out, a failed update for dynamic streams, and a request
  without output buffers.\<close>

lemma admission_failures:
  "(unat (req_pipeline_id req) \<ge> length pl \<longrightarrow>
      ProcessPipelineRequests env fn [req] pl waits s = Inr (Some BAD_VALUE, waits, s))
   \<and> (unat (req_pipeline_id req) < length pl \<and> length (pending_requests s) > unat kPipelineDepth
        \<longrightarrow> ProcessPipelineRequests env fn [req] pl (([], True) # waits) s
              = Inr (Some TIMED_OUT, waits, s))
   \<and> (unat (req_pipeline_id req) < length pl \<and> length (pending_requests s) \<le> unat kPipelineDepth
        \<and> UpdateRequestForDynamicStreams env (request_state s) req = (res, req', rstate)
        \<and> res \<noteq> OK
        \<longrightarrow> ProcessPipelineRequests env fn [req] pl waits s
              = Inr (Some res, waits, s\<lparr>request_state := rstate\<rparr>))
   \<and> (unat (req_pipeline_id req) < length pl \<and> length (pending_requests s) \<le> unat kPipelineDepth
        \<and> UpdateRequestForDynamicStreams env (request_state s) req = (OK, req', rstate)
        \<and> unat (req_pipeline_id req') < length pl \<and> req_output_buffers req' = []
        \<longrightarrow> ProcessPipelineRequests env fn [req] pl waits s
              = Inr (Some NO_MEMORY, waits, s\<lparr>request_state := rstate\<rparr>))"
proof (intro conjI impI)
  assume "unat (req_pipeline_id req) \<ge> length pl"
  then show "ProcessPipelineRequests env fn [req] pl waits s = Inr (Some BAD_VALUE, waits, s)"
    by simp
next
  assume "unat (req_pipeline_id req) < length pl
    \<and> length (pending_requests s) > unat kPipelineDepth"
  then show "ProcessPipelineRequests env fn [req] pl (([], True) # waits) s
              = Inr (Some TIMED_OUT, waits, s)"
    by simp
next
  assume a: "unat (req_pipeline_id req) < length pl
    \<and> length (pending_requests s) \<le> unat kPipelineDepth
    \<and> UpdateRequestForDynamicStreams env (request_state s) req = (res, req', rstate)
    \<and> res \<noteq> OK"
  then have free: "wait_for_slot env waits s = Inr (SlotFree, waits, s)"
    by (cases waits) auto
  from a have "admit env fn pl req s = Inr (res, s\<lparr>request_state := rstate\<rparr>)"
    by (simp add: admit_def)
  with a free show "ProcessPipelineRequests env fn [req] pl waits s
              = Inr (Some res, waits, s\<lparr>request_state := rstate\<rparr>)"
    by simp
next
  assume a: "unat (req_pipeline_id req) < length pl
    \<and> length (pending_requests s) \<le> unat kPipelineDepth
    \<and> UpdateRequestForDynamicStreams env (request_state s) req = (OK, req', rstate)
    \<and> unat (req_pipeline_id req') < length pl \<and> req_output_buffers req' = []"
  then have free: "wait_for_slot env waits s = Inr (SlotFree, waits, s)"
    by (cases waits) auto
  from a have "admit env fn pl req s = Inr (NO_MEMORY, s\<lparr>request_state := rstate\<rparr>)"
    by (simp add: admit_def CreateSensorBuffers_def)
  with a free show "ProcessPipelineRequests env fn [req] pl waits s
              = Inr (Some NO_MEMORY, waits, s\<lparr>request_state := rstate\<rparr>)"
    by simp
qed

text \<open>
  C9. When the requests \<open>earlier\<close> of a batch have been admitted and the next request
  of the batch fails (for any of the reasons of \<open>admission_failures\<close>), the call
  returns that error with the state the failure left: nothing is rolled back. When no
  other thread acts during the waits of the call, that state has the queue as it was
  before the call followed by one entry for each of the requests \<open>earlier\<close>, and the
  override settings queued for them are still queued behind the earlier ones.
\<close>

theorem C9_no_rollback:
  assumes "ProcessPipelineRequests env fn earlier pl waits s = Inr (Some OK, waits_mid, s_mid)"
    and "ProcessPipelineRequests env fn [req] pl waits_mid s_mid = Inr (Some err, waits', s')"
    and "err \<noteq> OK"
  shows "ProcessPipelineRequests env fn (earlier @ req # later) pl waits s
           = Inr (Some err, waits', s')
         \<and> ((\<forall>w \<in> set waits. fst w = []) \<longrightarrow>
              pending_requests s' = pending_requests s_mid
              \<and> override_settings s' = override_settings s_mid
              \<and> length (pending_requests s') = length (pending_requests s) + length earlier
              \<and> take (length (pending_requests s)) (pending_requests s') = pending_requests s
              \<and> (\<exists>added. override_settings s' = override_settings s @ added))"
proof
  have "ProcessPipelineRequests env fn ([req] @ later) pl waits_mid s_mid
          = Inr (Some err, waits', s')"
    using assms(2,3) by (simp only: ProcessPipelineRequests_append) simp
  then show "ProcessPipelineRequests env fn (earlier @ req # later) pl waits s
           = Inr (Some err, waits', s')"
    using assms(1) by (simp add: ProcessPipelineRequests_append)
next
  show "(\<forall>w \<in> set waits. fst w = []) \<longrightarrow>
              pending_requests s' = pending_requests s_mid
              \<and> override_settings s' = override_settings s_mid
              \<and> length (pending_requests s') = length (pending_requests s) + length earlier
              \<and> take (length (pending_requests s)) (pending_requests s') = pending_requests s
              \<and> (\<exists>added. override_settings s' = override_settings s @ added)"
  proof
    assume quiet: "\<forall>w \<in> set waits. fst w = []"
    from ProcessPipelineRequests_quiet_admitted[OF quiet assms(1)]
    have adm: "length (pending_requests s_mid) = length (pending_requests s) + length earlier"
      "take (length (pending_requests s)) (pending_requests s_mid) = pending_requests s"
      "\<exists>added. override_settings s_mid = override_settings s @ added"
      and quiet_mid: "\<forall>w \<in> set waits_mid. fst w = []"
      by simp_all
    from ProcessPipelineRequests_quiet_failure[OF quiet_mid assms(2,3)] adm
    show "pending_requests s' = pending_requests s_mid
              \<and> override_settings s' = override_settings s_mid
              \<and> length (pending_requests s') = length (pending_requests s) + length earlier
              \<and> take (length (pending_requests s)) (pending_requests s') = pending_requests s
              \<and> (\<exists>added. override_settings s' = override_settings s @ added)"
      by simp
  qed
qed

text \<open>A batch of five requests, submitted to the empty queue while no other thread
  runs: four are admitted, the wait of the fifth times out, the call returns TIMED_OUT
  and the four stay queued, with their override settings.\<close>

theorem C9_no_rollback_witness:
  "ProcessPipelineRequests env_ok 7
     ([good_request, good_request, good_request, good_request] @ good_request # [])
     pipelines_one [([], True)] hal_init
     = Inr (Some TIMED_OUT, [],
            hal_init\<lparr> override_settings :=
                         [\<lparr>os_settings = Some zoom_settings, os_frame_number = 7\<rparr>,
                          \<lparr>os_settings = Some zoom_settings, os_frame_number = 7\<rparr>,
                          \<lparr>os_settings = Some zoom_settings, os_frame_number = 7\<rparr>,
                          \<lparr>os_settings = Some zoom_settings, os_frame_number = 7\<rparr>],
                      pending_requests :=
                         [pending_of 7, pending_of 7, pending_of 7, pending_of 7] \<rparr>)
   \<and> TIMED_OUT \<noteq> OK
   \<and> map fst [([], True)] = [[] :: action list]
   \<and> length (pending_requests hal_init) + 4 = 4"
proof -
  have valid: "\<not> length pipelines_one \<le> unat (req_pipeline_id good_request)"
    by (simp add: good_request_def request_with_def pipelines_one_def)
  have fifth: "ProcessPipelineRequests env_ok 7 [good_request] pipelines_one [([], True)]
      (hal_init\<lparr> override_settings :=
                       [\<lparr>os_settings = Some zoom_settings, os_frame_number = 7\<rparr>,
                        \<lparr>os_settings = Some zoom_settings, os_frame_number = 7\<rparr>,
                        \<lparr>os_settings = Some zoom_settings, os_frame_number = 7\<rparr>,
                        \<lparr>os_settings = Some zoom_settings, os_frame_number = 7\<rparr>],
                    pending_requests :=
                       [pending_of 7, pending_of 7, pending_of 7, pending_of 7] \<rparr>)
     = Inr (Some TIMED_OUT, [],
            hal_init\<lparr> override_settings :=
                         [\<lparr>os_settings = Some zoom_settings, os_frame_number = 7\<rparr>,
                          \<lparr>os_settings = Some zoom_settings, os_frame_number = 7\<rparr>,
                          \<lparr>os_settings = Some zoom_settings, os_frame_number = 7\<rparr>,
                          \<lparr>os_settings = Some zoom_settings, os_frame_number = 7\<rparr>],
                      pending_requests :=
                         [pending_of 7, pending_of 7, pending_of 7, pending_of 7] \<rparr>)"
    by (simp add: valid depth3)
  have ne: "TIMED_OUT \<noteq> OK" by simp
  have quiet: "\<forall>w \<in> set [([], True)]. fst w = ([] :: action list)" by simp
  have empty: "pending_requests hal_init = []" by (simp add: hal_init_def)
  from C9_no_rollback [OF four_admitted fifth ne, of "[]"] quiet empty ne show ?thesis
    by simp
qed

section \<open>Properties of RequestProcessorLoop\<close>

lemma frame_settings_no_snapshot:
  "pr_settings request = None \<Longrightarrow> last_settings s = None \<Longrightarrow>
   frame_settings env request ids s = Inr (BAD_VALUE, [], s)"
  by (simp add: frame_settings_def ApplyOverrideSettings_def InitializeLogicalSettings_def)

lemma fail_result_eq:
  "fail_result request ib ob s =
     (case notify (pr_callback request) of
        None \<Rightarrow> Inl BadFunctionCall
      | Some nf \<Rightarrow>
          Inr (s\<lparr> callback_log := callback_log s @
                    [NotifyCall nf (pr_pipeline_id request)
                       (ErrorMessage (pr_frame_number request) (- 1) kErrorResult)],
                  released := released s @ buffers_of ib @ buffers_of ob \<rparr>))"
  by (simp add: fail_result_def call_notify_def split: option.splits)

text \<open>A request without settings when no settings are cached: the pass of the loop does
  not hand it to the sensor; it sends one \<open>kErrorResult\<close> notification for the frame and
  pops the request.\<close>

lemma absent_settings_no_snapshot:
  assumes "pending_requests s = request # rest" and "pr_settings request = None"
    and "last_settings s = None" and "notify (pr_callback request) = Some nf"
  shows "\<exists>s'. RequestProcessorLoop_body env s = Inr s'
              \<and> current s' = current s \<and> sensor_thread s' = sensor_thread s
              \<and> callback_log s' = callback_log s @
                    [NotifyCall nf (pr_pipeline_id request)
                       (ErrorMessage (pr_frame_number request) (- 1) kErrorResult)]
              \<and> pending_requests s' = rest \<and> last_settings s' = None"
proof -
  from assms(3) have ls: "last_settings (s\<lparr>released := x\<rparr>) = None" for x by simp
  show ?thesis
    using assms
    by (simp add: RequestProcessorLoop_body_def frame_settings_no_snapshot[OF assms(2) ls]
        fail_result_eq split: prod.splits option.splits list.splits)
qed

text \<open>A request without settings when settings are cached, its own null entry is at
  the front of the override queue, and no override settings have been seen: the null
  \<open>last_override_settings_\<close> is dereferenced.\<close>

lemma repeating_request_null_override:
  assumes "pending_requests s = request # rest" and "pr_settings request = None"
    and "last_settings s = Some m"
    and "override_settings s = \<lparr>os_settings = None, os_frame_number = n\<rparr> # q"
    and "last_override_settings s = None"
    and "AcquireBuffers env (pr_output_buffers request) = (Some (ob # obs), dropped)"
  shows "RequestProcessorLoop_body env s = Inl NullDereference"
proof -
  have "frame_settings env request ids (s\<lparr>released := x\<rparr>) = Inl NullDereference" for ids x
    using assms(2-5)
    by (simp add: frame_settings_def ApplyOverrideSettings_def)
  with assms(1,6) show ?thesis
    by (simp add: RequestProcessorLoop_body_def split: prod.splits)
qed

text \<open>
  C7: the code does not do what the claim and the comment in \<open>RequestProcessorLoop\<close>
  say. Frame 1 is submitted with settings that carry no settings-override entry and is
  served; its settings are cached. Frame 2 is submitted without settings, which queues
  a null override entry for it. When the loop takes frame 2, \<open>ApplyOverrideSettings\<close>
  is given the cached settings, finds the null entry, takes \<open>last_override_settings_\<close>
  for it, which is still null, and dereferences it: the cached settings are not
  reused. When the settings of frame 1 carry a settings-override entry (here switched
  off), \<open>last_override_settings_\<close> is set, and frame 2 is latched with the cached
  settings.
\<close>

theorem C7_repeating_request_null_override:
  "result_calls (callback_log (repeating_after plain_settings)) = [(Partial, 1), (Final, 1)]
   \<and> map pr_frame_number (pending_requests (repeating_after plain_settings)) = [2]
   \<and> map pr_settings (pending_requests (repeating_after plain_settings)) = [None]
   \<and> last_settings (repeating_after plain_settings) = Some plain_settings
   \<and> override_settings (repeating_after plain_settings)
       = [\<lparr>os_settings = None, os_frame_number = 2\<rparr>]
   \<and> last_override_settings (repeating_after plain_settings) = None
   \<and> RequestProcessorLoop_body env_ok (repeating_after plain_settings) = Inl NullDereference
   \<and> last_settings (repeating_after off_settings) = Some off_settings
   \<and> last_override_settings (repeating_after off_settings) = Some off_settings
   \<and> l_settings (current (the_state
         (RequestProcessorLoop_body env_ok (repeating_after off_settings)))) = Some settings_one
   \<and> frame_of (current (the_state
         (RequestProcessorLoop_body env_ok (repeating_after off_settings)))) = Some 2
   \<and> last_settings (the_state
         (RequestProcessorLoop_body env_ok (repeating_after off_settings))) = Some off_settings"
  by code_simp
section \<open>Properties of the sensor loop\<close>

lemma ReturnResults_null: "ReturnResults env cbk None None rr None s = Inr []"
  by (simp add: ReturnResults_def split: option.splits)

lemma ReturnResults_shape:
  assumes "ReturnResults env cbk st res rr partial s = Inr evs"
  shows "evs = [] \<or>
         (\<exists>d p r0 r. process_pipeline_result cbk = Some d \<and> partial = Some p \<and> res = Some r0
            \<and> res_frame_number r = res_frame_number r0
            \<and> evs = (if partial_result p \<noteq> 0 then [ResultCall d Partial p] else [])
                      @ [ResultCall d Final r])"
  using assms
  by (auto simp: ReturnResults_def split: option.splits sum.splits)

lemma return_stage_log:
  assumes "return_stage env clk locals cbk rr leftover s = Inr s'"
  shows "\<exists>evs. callback_log s' = callback_log s @ evs
           \<and> ReturnResults env cbk (l_settings locals) (l_result locals) rr
                 (l_partial_result locals) s = Inr evs"
  using assms
  by (auto simp: return_stage_def ReturnResults_null split: if_splits sum.splits)

lemma synthesis_stage_shape:
  assumes "synthesis_stage env chs locals rr capture readout = Inr (cbk, sh, erased, queued, leftover)"
  shows "(cbk = null_callback \<and> sh = []) \<or>
         (\<exists>first others. l_output_buffers locals = Some (first # others) \<and> cbk = callback first
            \<and> (case notify (callback first) of
                  None \<Rightarrow> sh = []
                | Some nf \<Rightarrow> \<exists>r. l_result locals = Some r \<and>
                     sh = [NotifyCall nf (res_pipeline_id r)
                             (ShutterMessage (buf_frame_number first) (of_int capture)
                                (of_int readout))]))"
  using assms
  by (auto simp: synthesis_stage_def shutter_notification_def
      split: option.splits list.splits sum.splits)

lemma threadLoop_body_log:
  assumes "threadLoop_body env clk locals s = Inr s'"
  shows "\<exists>cbk sh erased queued leftover rr evs.
           synthesis_stage env (chars s) locals rr (next_capture_time s') (next_readout_time s')
              = Inr (cbk, sh, erased, queued, leftover)
         \<and> callback_log s' = callback_log s @ sh @ evs
         \<and> (evs = [] \<or>
             (\<exists>d p r0 r. process_pipeline_result cbk = Some d \<and> l_partial_result locals = Some p
                \<and> l_result locals = Some r0 \<and> res_frame_number r = res_frame_number r0
                \<and> evs = (if partial_result p \<noteq> 0 then [ResultCall d Partial p] else [])
                          @ [ResultCall d Final r]))"
proof -
  from assms obtain capture readout rr cbk sh erased queued leftover where
    ct: "capture_times clk locals = Inr (capture, readout, rr)"
    and ss: "synthesis_stage env (chars s) locals rr capture readout
               = Inr (cbk, sh, erased, queued, leftover)"
    and rs: "return_stage env clk locals cbk rr leftover
                 (s\<lparr> next_capture_time := capture,
                      next_readout_time := readout,
                      callback_log := callback_log s @ sh,
                      jpeg_jobs := jpeg_jobs s @ queued,
                      released := released s @ erased @
                        (if rr then map (set_status kOk) (buffers_of (l_input_buffers locals))
                         else []) \<rparr>) = Inr s'"
    by (auto simp: threadLoop_body_def split: sum.splits prod.splits)
  from rs have times: "next_capture_time s' = capture" "next_readout_time s' = readout"
    by (auto simp: return_stage_def split: if_splits sum.splits)
  from return_stage_log[OF rs] obtain evs where
    log: "callback_log s' = callback_log s @ sh @ evs"
    and rr: "ReturnResults env cbk (l_settings locals) (l_result locals) rr
                 (l_partial_result locals)
                 (s\<lparr> next_capture_time := capture,
                      next_readout_time := readout,
                      callback_log := callback_log s @ sh,
                      jpeg_jobs := jpeg_jobs s @ queued,
                      released := released s @ erased @
                        (if rr then map (set_status kOk) (buffers_of (l_input_buffers locals))
                         else []) \<rparr>) = Inr evs"
    by auto
  from ReturnResults_shape[OF rr] ss log times show ?thesis
    by blast
qed


lemma result_calls_append: "result_calls (xs @ ys) = result_calls xs @ result_calls ys"
  by (induction xs rule: result_calls.induct) simp_all

lemma threadLoop_results:
  assumes "threadLoop env clk s = Inr s'"
  shows "\<exists>evs. callback_log s' = callback_log s @ evs
           \<and> (result_calls evs = []
               \<or> (\<exists>r. l_result (current s) = Some r
                     \<and> result_calls evs = [(Final, res_frame_number r)])
               \<or> (\<exists>r p. l_result (current s) = Some r \<and> l_partial_result (current s) = Some p
                     \<and> result_calls evs
                         = [(Partial, res_frame_number p), (Final, res_frame_number r)]))"
proof -
  from assms have body: "threadLoop_body env clk (current s)
      (s\<lparr>current := no_request, got_vsync := True, sensor_thread := None\<rparr>) = Inr s'"
    by (simp add: threadLoop_def threadLoop_rest_def threadLoop_stage1_def)
  from threadLoop_body_log[OF body] obtain cbk sh erased queued leftover rr evs where
    ss: "synthesis_stage env (chars s) (current s) rr (next_capture_time s') (next_readout_time s')
              = Inr (cbk, sh, erased, queued, leftover)"
    and log: "callback_log s' = callback_log s @ sh @ evs"
    and evs: "evs = [] \<or>
             (\<exists>d p r0 r. process_pipeline_result cbk = Some d
                \<and> l_partial_result (current s) = Some p
                \<and> l_result (current s) = Some r0 \<and> res_frame_number r = res_frame_number r0
                \<and> evs = (if partial_result p \<noteq> 0 then [ResultCall d Partial p] else [])
                          @ [ResultCall d Final r])"
    by auto
  from synthesis_stage_shape[OF ss] have sh: "result_calls sh = []"
    by (auto split: option.splits)
  from evs have "result_calls evs = []
               \<or> (\<exists>r. l_result (current s) = Some r
                     \<and> result_calls evs = [(Final, res_frame_number r)])
               \<or> (\<exists>r p. l_result (current s) = Some r \<and> l_partial_result (current s) = Some p
                     \<and> result_calls evs
                         = [(Partial, res_frame_number p), (Final, res_frame_number r)])"
    by (auto split: if_splits)
  with sh have "result_calls (sh @ evs) = []
               \<or> (\<exists>r. l_result (current s) = Some r
                     \<and> result_calls (sh @ evs) = [(Final, res_frame_number r)])
               \<or> (\<exists>r p. l_result (current s) = Some r \<and> l_partial_result (current s) = Some p
                     \<and> result_calls (sh @ evs)
                         = [(Partial, res_frame_number p), (Final, res_frame_number r)])"
    by (simp add: result_calls_append)
  with log show ?thesis by blast
qed

lemma sensor_run_results:
  assumes "sensor_run env frames s = Inr s'"
  shows "\<exists>evs. callback_log s' = callback_log s @ evs
           \<and> results_of_frames (map fst frames) (result_calls evs)"
  using assms
proof (induction frames arbitrary: s)
  case Nil
  then show ?case by (auto intro: results_of_frames.intros)
next
  case (Cons a frames)
  obtain frame clk where a: "a = (frame, clk)" by (cases a)
  let ?latched = "SetCurrentRequest (l_settings frame) (l_result frame) (l_partial_result frame)
                (l_input_buffers frame) (l_output_buffers frame) s"
  from Cons.prems a obtain s1 where it: "threadLoop env clk ?latched = Inr s1"
    and rest: "sensor_run env frames s1 = Inr s'"
    by (auto split: sum.splits)
  have cur: "l_result (current ?latched) = l_result frame"
    "l_partial_result (current ?latched) = l_partial_result frame"
    "callback_log ?latched = callback_log s"
    by (simp_all add: SetCurrentRequest_def)
  from threadLoop_results[OF it] cur obtain evs1 where
    log1: "callback_log s1 = callback_log s @ evs1"
    and shape: "result_calls evs1 = []
               \<or> (\<exists>r. l_result frame = Some r
                     \<and> result_calls evs1 = [(Final, res_frame_number r)])
               \<or> (\<exists>r p. l_result frame = Some r \<and> l_partial_result frame = Some p
                     \<and> result_calls evs1
                         = [(Partial, res_frame_number p), (Final, res_frame_number r)])"
    by auto
  from Cons.IH[OF rest] obtain evs2 where
    log2: "callback_log s' = callback_log s1 @ evs2"
    and rof: "results_of_frames (map fst frames) (result_calls evs2)"
    by auto
  from shape rof a have "results_of_frames (map fst (a # frames)) (result_calls (evs1 @ evs2))"
    by (auto simp: result_calls_append intro: results_of_frames.intros)
  with log1 log2 show ?case
    by (auto intro!: exI[where x = "evs1 @ evs2"])
qed

text \<open>Latched requests with different frame numbers never give two final results
  with the same frame number.\<close>

lemma results_of_frames_finals:
  "results_of_frames frames rc \<Longrightarrow>
   set (final_frames rc) \<subseteq> set (List.map_filter frame_of frames)"
  by (induction rule: results_of_frames.induct)
     (auto simp: final_frames_def frame_of_def map_filter_simps split: option.splits)

lemma results_of_frames_distinct:
  "results_of_frames frames rc \<Longrightarrow> distinct (List.map_filter frame_of frames) \<Longrightarrow>
   distinct (final_frames rc)"
proof (induction rule: results_of_frames.induct)
  case no_frames
  then show ?case by (simp add: final_frames_def)
next
  case (no_result frames rc frame)
  from no_result.prems have "distinct (List.map_filter frame_of frames)"
    by (simp add: map_filter_simps split: option.splits)
  then show ?case by (rule no_result.IH)
next
  case (final_only frame r frames rc)
  have f: "frame_of frame = Some (res_frame_number r)"
    using final_only.hyps(1) by (simp add: frame_of_def)
  with final_only.prems have d: "distinct (List.map_filter frame_of frames)"
    and n: "res_frame_number r \<notin> set (List.map_filter frame_of frames)"
    by (simp_all add: map_filter_simps)
  from n results_of_frames_finals[OF final_only.hyps(2)]
  have fresh: "res_frame_number r \<notin> set (final_frames rc)" by auto
  from final_only.IH[OF d] fresh show ?case by (simp add: final_frames_def)
next
  case (partial_then_final frame r p frames rc)
  have f: "frame_of frame = Some (res_frame_number r)"
    using partial_then_final.hyps(1) by (simp add: frame_of_def)
  with partial_then_final.prems have d: "distinct (List.map_filter frame_of frames)"
    and n: "res_frame_number r \<notin> set (List.map_filter frame_of frames)"
    by (simp_all add: map_filter_simps)
  from n results_of_frames_finals[OF partial_then_final.hyps(3)]
  have fresh: "res_frame_number r \<notin> set (final_frames rc)" by auto
  from partial_then_final.IH[OF d] fresh show ?case by (simp add: final_frames_def)
qed

text \<open>
  C3, as stated, fails. One call of \<open>ProcessPipelineRequests\<close> queues each of its
  requests under the frame number of the call. With a request for each of two
  pipelines in the call for frame 7, both are queued as frame 7, each is latched and
  served by an iteration of the sensor loop, and frame number 7 gets two final
  results.
\<close>

theorem C3_two_finals_for_one_frame_number:
  "returned (ProcessPipelineRequests env_ok 7 requests_of_frame pipelines_two [] hal_init)
     = Some OK
   \<and> map pr_frame_number (pending_requests two_in_one_call) = [7, 7]
   \<and> map pr_pipeline_id (pending_requests two_in_one_call) = [0, 1]
   \<and> result_calls (callback_log both_served)
       = [(Partial, 7), (Final, 7), (Partial, 7), (Final, 7)]
   \<and> final_frames (result_calls (callback_log both_served)) = [7, 7]"
  by code_simp

text \<open>
  C3, amended: per latched request instead of per frame number. Over any run of the
  sensor loop, the result calls are, one latched request after the other, either none,
  or the final result of the request alone, or its partial result followed at once by
  its final result: a partial result comes strictly before the final result of its
  request, and the iteration that serves a request delivers at most one final result,
  although it calls \<open>ReturnResults\<close> twice under a tight deadline. Hence, when the
  latched requests carry different frame numbers, no frame number gets two final
  results.
\<close>

theorem C3_partial_before_single_final:
  assumes "sensor_run env frames s = Inr s'"
  shows "\<exists>evs. callback_log s' = callback_log s @ evs
           \<and> results_of_frames (map fst frames) (result_calls evs)
           \<and> (distinct (List.map_filter frame_of (map fst frames)) \<longrightarrow>
                distinct (final_frames (result_calls evs)))"
proof -
  from sensor_run_results[OF assms] obtain evs where
    "callback_log s' = callback_log s @ evs"
    "results_of_frames (map fst frames) (result_calls evs)"
    by blast
  then show ?thesis
    using results_of_frames_distinct by blast
qed

text \<open>Two frames, the first returned under the tight deadline (both calls of
  \<open>ReturnResults\<close> are made), the second after the sleep.\<close>

theorem C3_partial_before_single_final_witness:
  "result_calls (callback_log (the_state (sensor_run env_ok two_frames hal_init)))
     = [(Partial, 1), (Final, 1), (Partial, 2), (Final, 2)]
   \<and> final_frames (result_calls (callback_log (the_state (sensor_run env_ok two_frames hal_init))))
     = [1, 2]
   \<and> List.map_filter frame_of (map fst two_frames) = [1, 2]"
proof -
  have run: "sensor_run env_ok two_frames hal_init
               = Inr (the_state (sensor_run env_ok two_frames hal_init))"
    by code_simp
  have frames: "List.map_filter frame_of (map fst two_frames) = [1, 2]"
    by code_simp
  have calls: "result_calls (callback_log (the_state (sensor_run env_ok two_frames hal_init)))
     = [(Partial, 1), (Final, 1), (Partial, 2), (Final, 2)]"
    by code_simp
  from C3_partial_before_single_final [OF run] obtain evs where
    "callback_log (the_state (sensor_run env_ok two_frames hal_init))
       = callback_log hal_init @ evs"
    and "distinct (List.map_filter frame_of (map fst two_frames)) \<longrightarrow>
           distinct (final_frames (result_calls evs))"
    by blast
  with frames calls show ?thesis
    by (simp add: final_frames_def)
qed

text \<open>
  C6, as stated, fails: a frame whose callback has no \<open>notify\<close> produces its results
  without any shutter notification. Frame 1 is submitted to a pipeline with such a
  callback, handed to the sensor and served: the log holds the partial and the final
  result and no shutter notification.
\<close>

theorem C6_results_without_shutter:
  "shutter_calls (callback_log served_without_notify) = []
   \<and> result_calls (callback_log served_without_notify) = [(Partial, 1), (Final, 1)]"
  by code_simp

text \<open>
  C6, amended. In one iteration of the sensor loop the callbacks are: at most one
  shutter notification, then the result calls, the partial result (if delivered)
  before the final one. When results are delivered and the \<open>notify\<close> callback of the
  frame is non-null, the shutter notification is there, strictly before the results,
  and carries the frame number of the first output buffer and the capture and readout
  times of the iteration.
\<close>

theorem C6_shutter_then_results:
  assumes "threadLoop env clk s = Inr s'"
  shows "\<exists>sh res. callback_log s' = callback_log s @ sh @ res
           \<and> length sh \<le> 1 \<and> result_calls sh = [] \<and> error_calls sh = []
           \<and> (\<forall>e \<in> set res. is_result e)
           \<and> (result_calls res = []
               \<or> (\<exists>r. l_result (current s) = Some r
                     \<and> result_calls res = [(Final, res_frame_number r)])
               \<or> (\<exists>r p. l_result (current s) = Some r \<and> l_partial_result (current s) = Some p
                     \<and> result_calls res
                         = [(Partial, res_frame_number p), (Final, res_frame_number r)]))
           \<and> (res \<noteq> [] \<longrightarrow>
                (\<exists>first others. l_output_buffers (current s) = Some (first # others)
                   \<and> (\<forall>nf. notify (callback first) = Some nf \<longrightarrow>
                        (\<exists>pid. sh = [NotifyCall nf pid
                                       (ShutterMessage (buf_frame_number first)
                                          (of_int (next_capture_time s'))
                                          (of_int (next_readout_time s')))]))))"
proof -
  from assms have body: "threadLoop_body env clk (current s)
      (s\<lparr>current := no_request, got_vsync := True, sensor_thread := None\<rparr>) = Inr s'"
    by (simp add: threadLoop_def threadLoop_rest_def threadLoop_stage1_def)
  from threadLoop_body_log[OF body] obtain cbk sh erased queued leftover rr evs where
    ss: "synthesis_stage env (chars s) (current s) rr (next_capture_time s') (next_readout_time s')
              = Inr (cbk, sh, erased, queued, leftover)"
    and log: "callback_log s' = callback_log s @ sh @ evs"
    and evs: "evs = [] \<or>
             (\<exists>d p r0 r. process_pipeline_result cbk = Some d
                \<and> l_partial_result (current s) = Some p
                \<and> l_result (current s) = Some r0 \<and> res_frame_number r = res_frame_number r0
                \<and> evs = (if partial_result p \<noteq> 0 then [ResultCall d Partial p] else [])
                          @ [ResultCall d Final r])"
    by auto
  note shape = synthesis_stage_shape[OF ss]
  from shape have sh: "length sh \<le> 1" "result_calls sh = []" "error_calls sh = []"
    by (auto split: option.splits)
  from evs have res: "\<forall>e \<in> set evs. is_result e"
    by (auto split: if_splits)
  from evs have order: "result_calls evs = []
               \<or> (\<exists>r. l_result (current s) = Some r
                     \<and> result_calls evs = [(Final, res_frame_number r)])
               \<or> (\<exists>r p. l_result (current s) = Some r \<and> l_partial_result (current s) = Some p
                     \<and> result_calls evs
                         = [(Partial, res_frame_number p), (Final, res_frame_number r)])"
    by (auto split: if_splits)
  have first: "evs \<noteq> [] \<longrightarrow>
                (\<exists>first others. l_output_buffers (current s) = Some (first # others)
                   \<and> (\<forall>nf. notify (callback first) = Some nf \<longrightarrow>
                        (\<exists>pid. sh = [NotifyCall nf pid
                                       (ShutterMessage (buf_frame_number first)
                                          (of_int (next_capture_time s'))
                                          (of_int (next_readout_time s')))])))"
  proof
    assume "evs \<noteq> []"
    with evs have "process_pipeline_result cbk \<noteq> None" by auto
    with shape show "\<exists>first others. l_output_buffers (current s) = Some (first # others)
                   \<and> (\<forall>nf. notify (callback first) = Some nf \<longrightarrow>
                        (\<exists>pid. sh = [NotifyCall nf pid
                                       (ShutterMessage (buf_frame_number first)
                                          (of_int (next_capture_time s'))
                                          (of_int (next_readout_time s')))]))"
      by (auto simp: null_callback_def)
  qed
  from log sh res order first show ?thesis
    by blast
qed

text \<open>Frame 1 with the client's callback: shutter notification, partial result, final
  result.\<close>

theorem C6_shutter_then_results_witness:
  "callback_log (the_state (threadLoop env_ok clock_zero
       (hal_init\<lparr>current := frame_for client_callback 33333333 1\<rparr>)))
     = [NotifyCall 3 0 (ShutterMessage 1 33333333 43333333),
        ResultCall 1 Partial (result_shell 0 1 True),
        ResultCall 1 Final
          ((result_shell 0 1 False)\<lparr>result_metadata :=
              Some [(ANDROID_SENSOR_TIMESTAMP, \<lparr>etype = TYPE_INT64, edata = [33333333]\<rparr>)]\<rparr>)]
   \<and> notify (callback (new_sensor_buffer env_ok 1 stream_zero 0 client_callback
                           output_buffer_zero 0 0)) = Some 3"
proof -
  have run: "threadLoop env_ok clock_zero (hal_init\<lparr>current := frame_for client_callback 33333333 1\<rparr>)
      = Inr (the_state (threadLoop env_ok clock_zero
               (hal_init\<lparr>current := frame_for client_callback 33333333 1\<rparr>)))"
    by code_simp
  have log: "callback_log (the_state (threadLoop env_ok clock_zero
       (hal_init\<lparr>current := frame_for client_callback 33333333 1\<rparr>)))
     = [NotifyCall 3 0 (ShutterMessage 1 33333333 43333333),
        ResultCall 1 Partial (result_shell 0 1 True),
        ResultCall 1 Final
          ((result_shell 0 1 False)\<lparr>result_metadata :=
              Some [(ANDROID_SENSOR_TIMESTAMP, \<lparr>etype = TYPE_INT64, edata = [33333333]\<rparr>)]\<rparr>)]"
    by code_simp
  have nf: "notify (callback (new_sensor_buffer env_ok 1 stream_zero 0 client_callback
                           output_buffer_zero 0 0)) = Some 3"
    by code_simp
  from C6_shutter_then_results [OF run] obtain sh res where
    "callback_log (the_state (threadLoop env_ok clock_zero
       (hal_init\<lparr>current := frame_for client_callback 33333333 1\<rparr>)))
      = callback_log (hal_init\<lparr>current := frame_for client_callback 33333333 1\<rparr>) @ sh @ res"
    by blast
  with log nf show ?thesis
    by simp
qed

section \<open>Properties of Flush\<close>

lemma error_calls_append: "error_calls (xs @ ys) = error_calls xs @ error_calls ys"
  by (induction xs rule: error_calls.induct) simp_all

lemma flush_pending_log:
  "flush_pending reqs s = Inr s' \<Longrightarrow>
   \<exists>evs. callback_log s' = callback_log s @ evs
        \<and> error_calls evs = map (\<lambda>r. (pr_frame_number r, kErrorRequest)) reqs
        \<and> result_calls evs = [] \<and> length evs = length reqs
        \<and> pending_requests s' = []
        \<and> released s' = released s @ concat (map flushed_buffers reqs)
        \<and> current s' = current s"
proof (induction reqs arbitrary: s)
  case Nil
  then show ?case by auto
next
  case (Cons request rest)
  from Cons.prems obtain nf where nf: "notify (pr_callback request) = Some nf"
    by (auto simp: NotifyFailedRequest_def call_notify_def Let_def split: option.splits)
  let ?ev = "NotifyCall nf (pr_pipeline_id request)
               (ErrorMessage (pr_frame_number request) (- 1) kErrorRequest)"
  let ?s1 = "s\<lparr> callback_log := callback_log s @ [?ev],
                 pending_requests := rest,
                 released := released s @ flushed_buffers request \<rparr>"
  from Cons.prems nf have rest: "flush_pending rest ?s1 = Inr s'"
    by (simp add: NotifyFailedRequest_def call_notify_def Let_def flushed_buffers_def
        buffers_of_def split: option.splits)
  from Cons.IH[OF rest] obtain evs where
    "callback_log s' = callback_log s @ ?ev # evs"
    "error_calls evs = map (\<lambda>r. (pr_frame_number r, kErrorRequest)) rest"
    "result_calls evs = []" "length evs = length rest"
    "pending_requests s' = []"
    "released s' = released s @ flushed_buffers request @ concat (map flushed_buffers rest)"
    "current s' = current s"
    by auto
  then show ?case
    by (intro exI[where x = "?ev # evs"]) simp
qed



lemma return_stage_sensor:
  "return_stage env clk locals cbk rr leftover s = Inr s' \<Longrightarrow>
   current s' = current s \<and> sensor_thread s' = sensor_thread s"
  by (auto simp: return_stage_def split: if_splits sum.splits)

lemma threadLoop_body_sensor:
  "threadLoop_body env clk locals s = Inr s' \<Longrightarrow>
   current s' = current s \<and> sensor_thread s' = sensor_thread s"
  by (auto simp: threadLoop_body_def split: sum.splits prod.splits dest!: return_stage_sensor)

lemma threadLoop_rest_flush:
  assumes "threadLoop_rest env clk s = Inr s'"
  shows "\<exists>evs. callback_log s' = callback_log s @ evs \<and> error_calls evs = []
           \<and> pending_requests s' = pending_requests s \<and> current s' = current s
           \<and> sensor_thread s' = None"
proof (cases "sensor_thread s")
  case None
  with assms show ?thesis by (simp add: threadLoop_rest_def)
next
  case (Some locals)
  with assms have body: "threadLoop_body env clk locals (s\<lparr>sensor_thread := None\<rparr>) = Inr s'"
    by (simp add: threadLoop_rest_def)
  from threadLoop_body_log[OF body] obtain cbk sh erased queued leftover rr evs where
    ss: "synthesis_stage env (chars (s\<lparr>sensor_thread := None\<rparr>)) locals rr
            (next_capture_time s') (next_readout_time s')
              = Inr (cbk, sh, erased, queued, leftover)"
    and log: "callback_log s' = callback_log s @ sh @ evs"
    and evs: "evs = [] \<or>
             (\<exists>d p r0 r. process_pipeline_result cbk = Some d
                \<and> l_partial_result locals = Some p
                \<and> l_result locals = Some r0 \<and> res_frame_number r = res_frame_number r0
                \<and> evs = (if partial_result p \<noteq> 0 then [ResultCall d Partial p] else [])
                          @ [ResultCall d Final r])"
    by auto
  from synthesis_stage_shape[OF ss] have "error_calls sh = []"
    by (auto split: option.splits)
  moreover from evs have "error_calls evs = []"
    by (auto split: if_splits)
  ultimately have err: "error_calls (sh @ evs) = []"
    by (simp add: error_calls_append)
  from threadLoop_body_sensor[OF body] have keep: "current s' = current s" "sensor_thread s' = None"
    by simp_all
  from threadLoop_body_pending[OF body] log err keep show ?thesis
    by auto
qed



text \<open>A wait that only ever times out does not end: \<open>WaitForVSyncLocked\<close> goes round its
  loop again after \<open>TIMED_OUT\<close>.\<close>

lemma Flush_timeouts_keep_waiting:
  "Flush env (replicate n (None, WaitTimedOut)) s = None"
proof -
  have "vsync_wait_loop env (replicate n (None, WaitTimedOut)) t = None" if "\<not> got_vsync t" for t
    using that by (induction n) simp_all
  then show ?thesis
    by (simp add: Flush_def Sensor_Flush_def WaitForVSyncLocked_def)
qed




section \<open>The status of sensor buffers\<close>

lemma all_error_simps [simp]:
  "all_error []"
  "all_error (b # bs) = (status (stream_buffer b) = kError \<and> all_error bs)"
  "all_error (xs @ ys) = (all_error xs \<and> all_error ys)"
  by (auto simp: all_error_def)

lemma new_sensor_buffer_status:
  "status (stream_buffer (new_sensor_buffer env fn st p c sb ow oh)) = kError"
  by (simp add: new_sensor_buffer_def)

lemma import_acquire_fence_error:
  "status (stream_buffer b) = kError \<Longrightarrow> import_acquire_fence env sb b = (created, destroyed) \<Longrightarrow>
   all_error (case created of None \<Rightarrow> [] | Some b \<Rightarrow> [b]) \<and> all_error destroyed"
  by (auto simp: import_acquire_fence_def split: option.splits prod.splits if_splits)

lemma CreateSensorBuffer_error:
  assumes "CreateSensorBuffer env fn st p c sb ow oh = (created, destroyed)"
  shows "all_error (case created of None \<Rightarrow> [] | Some b \<Rightarrow> [b]) \<and> all_error destroyed"
proof -
  let ?b = "new_sensor_buffer env fn st p c sb ow oh"
  from assms have "import_acquire_fence env sb ?b = (created, destroyed)
      \<or> (created = None \<and> destroyed = [?b\<lparr>is_failed_request := True\<rparr>])"
    by (simp add: CreateSensorBuffer_def Let_def split: option.splits if_splits)
  moreover have st: "status (stream_buffer ?b) = kError"
    by (rule new_sensor_buffer_status)
  ultimately show ?thesis
    using import_acquire_fence_error[where b = ?b and env = env and sb = sb
        and created = created and destroyed = destroyed]
    by auto
qed

lemma create_loop_error:
  "create_loop env fn strs p c ow oh bufs = Inr (created, destroyed) \<Longrightarrow>
   all_error created \<and> all_error destroyed"
proof (induction bufs arbitrary: created destroyed)
  case Nil
  then show ?case by simp
next
  case (Cons b bs)
  from Cons.prems obtain st cr d1 created' d2 where
    "CreateSensorBuffer env fn st p c b ow oh = (cr, d1)"
    "create_loop env fn strs p c ow oh bs = Inr (created', d2)"
    "created = (case cr of None \<Rightarrow> created' | Some sb \<Rightarrow> sb # created')"
    "destroyed = d1 @ d2"
    by (auto split: option.splits prod.splits sum.splits)
  with Cons.IH[of created' d2] CreateSensorBuffer_error[of env fn st p c b ow oh cr d1]
  show ?case by (auto split: option.splits)
qed

lemma CreateSensorBuffers_shape:
  assumes "CreateSensorBuffers env fn bufs strs p c ow oh s = Inr (r, s')" and "bufs \<noteq> []"
  shows "\<exists>created destroyed rsb.
           create_loop env fn strs p c ow oh
             (if length (request_buffers env fn bufs) < length bufs then []
              else request_buffers env fn bufs) = Inr (created, destroyed)
         \<and> r = Some created
         \<and> s' = s\<lparr>returned_stream_buffers := rsb, released := released s @ destroyed\<rparr>"
proof -
  define rb where "rb = request_buffers env fn bufs"
  define short where "short = (length rb < length bufs)"
  define ret where "ret = (short \<and> return_stream_buffers env \<noteq> None)"
  define rsb where "rsb = (if ret then returned_stream_buffers s @ rb
                           else returned_stream_buffers s)"
  define s1 where "s1 = (if ret then s\<lparr>returned_stream_buffers :=
                                        returned_stream_buffers s @ rb\<rparr> else s)"
  define xs where "xs = (if short then [] else rb)"
  from assms have run: "(case create_loop env fn strs p c ow oh xs of
             Inl f \<Rightarrow> Inl f
           | Inr (sensor_buffers, destroyed) \<Rightarrow>
               Inr (Some sensor_buffers, s1\<lparr>released := released s1 @ destroyed\<rparr>))
          = Inr (r, s')"
    unfolding CreateSensorBuffers_def Let_def rb_def short_def ret_def s1_def xs_def
    by (simp only: if_False)
  have s1: "s1 = s\<lparr>returned_stream_buffers := rsb\<rparr>"
    by (cases ret) (simp_all add: s1_def rsb_def)
  show ?thesis
  proof (cases "create_loop env fn strs p c ow oh xs")
    case (Inl f)
    with run show ?thesis by simp
  next
    case (Inr pair)
    obtain created destroyed where pair: "pair = (created, destroyed)" by (cases pair)
    from Inr pair run have r: "r = Some created"
      and "s' = s1\<lparr>released := released s1 @ destroyed\<rparr>"
      by simp_all
    then have "s' = s\<lparr>returned_stream_buffers := rsb, released := released s @ destroyed\<rparr>"
      by (simp add: s1)
    with Inr pair r show ?thesis
      unfolding xs_def short_def rb_def by blast
  qed
qed

lemma CreateSensorBuffers_fields:
  assumes "CreateSensorBuffers env fn bufs strs p c ow oh s = Inr (r, s')"
  shows "pending_requests s' = pending_requests s \<and> current s' = current s
       \<and> jpeg_jobs s' = jpeg_jobs s \<and> sensor_thread s' = sensor_thread s
       \<and> override_settings s' = override_settings s"
proof (cases "bufs = []")
  case True
  with assms show ?thesis by (simp add: CreateSensorBuffers_def)
next
  case False
  from CreateSensorBuffers_shape[OF assms False] show ?thesis by auto
qed

lemma CreateSensorBuffers_error:
  assumes "CreateSensorBuffers env fn bufs strs p c ow oh s = Inr (r, s')"
  shows "all_error (buffers_of r)
       \<and> (\<exists>new. released s' = released s @ new \<and> all_error new)"
proof (cases "bufs = []")
  case True
  with assms show ?thesis
    by (simp add: CreateSensorBuffers_def buffers_of_def)
next
  case False
  from CreateSensorBuffers_shape[OF assms False] obtain created destroyed rsb where
    loop: "create_loop env fn strs p c ow oh
        (if length (request_buffers env fn bufs) < length bufs then []
         else request_buffers env fn bufs) = Inr (created, destroyed)"
    and r: "r = Some created"
    and s': "s' = s\<lparr>returned_stream_buffers := rsb, released := released s @ destroyed\<rparr>"
    by blast
  from s' have "released s' = released s @ destroyed" by simp
  with create_loop_error[OF loop] r show ?thesis
    by (auto simp: buffers_of_def)
qed

lemma acquire_loop_error:
  "acquire_loop env bs = (acquired, dropped) \<Longrightarrow> all_error bs \<Longrightarrow>
   all_error acquired \<and> all_error dropped"
proof (induction bs arbitrary: acquired dropped)
  case Nil
  then show ?case by simp
next
  case (Cons b bs)
  obtain a d where r: "acquire_loop env bs = (a, d)"
    by (cases "acquire_loop env bs")
  from Cons.prems(2) have b: "status (stream_buffer b) = kError" and bs: "all_error bs"
    by simp_all
  from Cons.IH[OF r bs] have IH: "all_error a" "all_error d"
    by simp_all
  from Cons.prems(1) r have "(acquired = b # a \<and> dropped = d) \<or> (acquired = a \<and> dropped = b # d)"
    by (simp split: if_splits)
  with IH b show ?case by auto
qed

lemma AcquireBuffers_error:
  assumes "AcquireBuffers env bufs = (acquired, dropped)" and "all_error (buffers_of bufs)"
  shows "all_error (buffers_of acquired) \<and> all_error dropped"
proof (cases bufs)
  case None
  with assms(1) show ?thesis by (simp add: AcquireBuffers_def buffers_of_def)
next
  case (Some bs)
  show ?thesis
  proof (cases bs)
    case Nil
    with assms(1) Some show ?thesis by (simp add: AcquireBuffers_def buffers_of_def)
  next
    case (Cons b rest)
    obtain a d where r: "acquire_loop env bs = (a, d)"
      by (cases "acquire_loop env bs")
    with assms(1) Some Cons have "acquired = Some a" "dropped = d"
      by (simp_all add: AcquireBuffers_def)
    moreover from assms(2) Some have "all_error bs" by (simp add: buffers_of_def)
    note acquire_loop_error[OF r this]
    ultimately show ?thesis by (simp add: buffers_of_def)
  qed
qed

lemma held_buffers_push:
  "all_error (held_buffers (s\<lparr>override_settings := ov,
                               pending_requests := pending_requests s @ [r]\<rparr>))
     = (all_error (held_buffers s) \<and> all_error (buffers_of (pr_output_buffers r))
        \<and> all_error (buffers_of (pr_input_buffers r)))"
  by (auto simp: held_buffers_def)

lemma admit_status:
  assumes a: "admit env fn pl req s = Inr (res, s')" and inv: "all_error (held_buffers s)"
  shows "all_error (held_buffers s') \<and> sensor_thread s' = sensor_thread s
       \<and> (\<exists>new. released s' = released s @ new \<and> all_error new)"
proof -
  obtain res0 request rstate where
    u: "UpdateRequestForDynamicStreams env (request_state s) req = (res0, request, rstate)"
    by (cases "UpdateRequestForDynamicStreams env (request_state s) req")
  let ?s0 = "s\<lparr>request_state := rstate\<rparr>"
  have s0: "held_buffers ?s0 = held_buffers s" "sensor_thread ?s0 = sensor_thread s"
    "released ?s0 = released s"
    by (simp_all add: held_buffers_def)
  show ?thesis
  proof (cases "res0 = OK")
    case False
    with a u have "s' = ?s0" by (simp add: admit_def)
    with s0 inv show ?thesis by simp
  next
    case True
    let ?pipeline = "pl ! unat (req_pipeline_id request)"
    from a u True obtain r1 s1 where
      c1: "CreateSensorBuffers env fn (req_output_buffers request) (streams ?pipeline)
             (req_pipeline_id request) (cb ?pipeline) 0 0 ?s0 = Inr (r1, s1)"
      by (auto simp: admit_def Let_def split: if_splits sum.splits)
    note f1 = CreateSensorBuffers_fields[OF c1]
    from CreateSensorBuffers_error[OF c1] obtain new1 where
      e1: "all_error (buffers_of r1)" "released s1 = released s @ new1" "all_error new1"
      by auto
    have h1: "held_buffers s1 = held_buffers s"
      using f1 by (simp add: held_buffers_def)
    show ?thesis
    proof (cases r1)
      case None
      with a u True c1 have "s' = s1"
        by (auto simp: admit_def Let_def split: if_splits)
      with h1 f1 e1 inv show ?thesis by simp
    next
      case (Some ob)
      with a u True c1 obtain r2 s2 where
        c2: "CreateSensorBuffers env fn (req_input_buffers request) (streams ?pipeline)
               (req_pipeline_id request) (cb ?pipeline) (input_width request)
               (input_height request) s1 = Inr (r2, s2)"
        and s': "s' = s2\<lparr> override_settings := override_settings s2 @
                              queued_override fn (req_settings request),
                          pending_requests := pending_requests s2 @
                              [\<lparr> pr_frame_number = fn,
                                 pr_pipeline_id = req_pipeline_id request,
                                 pr_callback = cb ?pipeline,
                                 pr_settings = req_settings request,
                                 pr_input_buffers = r2,
                                 pr_output_buffers = Some ob \<rparr>] \<rparr>"
        by (auto simp: admit_def Let_def split: if_splits sum.splits)
      note f2 = CreateSensorBuffers_fields[OF c2]
      from CreateSensorBuffers_error[OF c2] obtain new2 where
        e2: "all_error (buffers_of r2)" "released s2 = released s1 @ new2" "all_error new2"
        by auto
      have h2: "held_buffers s2 = held_buffers s"
        using f1 f2 by (simp add: held_buffers_def)
      have "all_error (held_buffers s')"
        unfolding s' held_buffers_push using h2 inv e1(1) e2(1) Some by simp
      moreover have "sensor_thread s' = sensor_thread s"
        using s' f1 f2 by simp
      moreover have "released s' = released s @ (new1 @ new2)"
        using s' e1(2) e2(2) by simp
      moreover have "all_error (new1 @ new2)"
        using e1(3) e2(3) by simp
      ultimately show ?thesis by blast
    qed
  qed
qed

lemma ApplyOverrideSettings_fields:
  "ApplyOverrideSettings W f rs s = Inr (n, rs', s') \<Longrightarrow>
   pending_requests s' = pending_requests s \<and> current s' = current s
   \<and> jpeg_jobs s' = jpeg_jobs s \<and> sensor_thread s' = sensor_thread s
   \<and> released s' = released s"
  by (auto simp: ApplyOverrideSettings_def split: option.splits sum.splits)

lemma frame_settings_fields:
  "frame_settings env request ids s = Inr (ret, ls, s') \<Longrightarrow>
   pending_requests s' = pending_requests s \<and> current s' = current s
   \<and> jpeg_jobs s' = jpeg_jobs s \<and> sensor_thread s' = sensor_thread s
   \<and> released s' = released s"
  by (auto simp: frame_settings_def split: option.splits sum.splits prod.splits
      dest!: ApplyOverrideSettings_fields)

lemma latch_request_fields:
  "pending_requests (latch_request env request ls ib ob s) = pending_requests s
   \<and> jpeg_jobs (latch_request env request ls ib ob s) = jpeg_jobs s
   \<and> sensor_thread (latch_request env request ls ib ob s) = sensor_thread s
   \<and> l_input_buffers (current (latch_request env request ls ib ob s)) = ib
   \<and> l_output_buffers (current (latch_request env request ls ib ob s)) = ob
   \<and> released (latch_request env request ls ib ob s)
       = released s @ buffers_of (l_input_buffers (current s))
           @ buffers_of (l_output_buffers (current s))"
  by (simp add: latch_request_def SetCurrentRequest_def split: prod.splits)

lemma fail_result_fields:
  "fail_result request ib ob s = Inr s' \<Longrightarrow>
   pending_requests s' = pending_requests s \<and> current s' = current s
   \<and> jpeg_jobs s' = jpeg_jobs s \<and> sensor_thread s' = sensor_thread s
   \<and> released s' = released s @ buffers_of ib @ buffers_of ob"
  by (auto simp: fail_result_def call_notify_def split: option.splits sum.splits)

lemma held_buffers_split:
  "all_error (held_buffers s) =
     (all_error (concat (map (\<lambda>r. buffers_of (pr_output_buffers r)
                                  @ buffers_of (pr_input_buffers r)) (pending_requests s)))
      \<and> all_error (buffers_of (l_input_buffers (current s)))
      \<and> all_error (buffers_of (l_output_buffers (current s)))
      \<and> all_error (jpeg_jobs s))"
  by (simp add: held_buffers_def)

lemma RequestProcessorLoop_body_status:
  assumes a: "RequestProcessorLoop_body env s = Inr s'" and inv: "all_error (held_buffers s)"
  shows "all_error (held_buffers s') \<and> sensor_thread s' = sensor_thread s
       \<and> (\<exists>new. released s' = released s @ new \<and> all_error new)"
proof (cases "pending_requests s")
  case Nil
  with a have "s' = s" by (simp add: RequestProcessorLoop_body_def)
  with inv show ?thesis by simp
next
  case (Cons request rest)
  obtain ob d_out where ao: "AcquireBuffers env (pr_output_buffers request) = (ob, d_out)"
    by (cases "AcquireBuffers env (pr_output_buffers request)")
  obtain ib d_in where ai: "AcquireBuffers env (pr_input_buffers request) = (ib, d_in)"
    by (cases "AcquireBuffers env (pr_input_buffers request)")
  from inv Cons have req: "all_error (buffers_of (pr_output_buffers request))"
    "all_error (buffers_of (pr_input_buffers request))"
    and rest: "all_error (concat (map (\<lambda>r. buffers_of (pr_output_buffers r)
                                  @ buffers_of (pr_input_buffers r)) rest))"
    and cur: "all_error (buffers_of (l_input_buffers (current s)))"
      "all_error (buffers_of (l_output_buffers (current s)))"
    and jpeg: "all_error (jpeg_jobs s)"
    by (simp_all add: held_buffers_split)
  from AcquireBuffers_error[OF ao req(1)] AcquireBuffers_error[OF ai req(2)]
  have acq: "all_error (buffers_of ob)" "all_error d_out" "all_error (buffers_of ib)"
    "all_error d_in"
    by simp_all
  let ?s0 = "s\<lparr>released := released s @ d_out @ d_in\<rparr>"
  define inner where "inner =
     (case ob of
        Some (o1 # os) \<Rightarrow>
          (case frame_settings env request (physical_output_ids env (o1 # os)) ?s0 of
             Inl f \<Rightarrow> Inl f
           | Inr (ret, logical_settings, sa) \<Rightarrow>
               if ret = OK
               then Inr (latch_request env request logical_settings ib ob sa)
               else fail_result request ib ob sa)
      | _ \<Rightarrow> fail_result request ib ob ?s0)"
  from a Cons ao ai obtain s1 where in1: "inner = Inr s1"
    and s': "s' = s1\<lparr>pending_requests := rest\<rparr>"
    by (auto simp: RequestProcessorLoop_body_def inner_def split: sum.splits)
  have step: "(\<exists>ids ret ls sa. frame_settings env request ids ?s0 = Inr (ret, ls, sa)
                  \<and> (s1 = latch_request env request ls ib ob sa
                      \<or> fail_result request ib ob sa = Inr s1))
               \<or> fail_result request ib ob ?s0 = Inr s1"
  proof (cases "\<exists>o1 os. ob = Some (o1 # os)")
    case True
    then obtain o1 os where o: "ob = Some (o1 # os)" by blast
    with in1 obtain ret ls sa where
      fs: "frame_settings env request (physical_output_ids env (o1 # os)) ?s0
             = Inr (ret, ls, sa)"
      and r: "(if ret = OK then Inr (latch_request env request ls ib ob sa)
               else fail_result request ib ob sa) = Inr s1"
      by (auto simp: inner_def split: sum.splits)
    from r have "s1 = latch_request env request ls ib ob sa
                 \<or> fail_result request ib ob sa = Inr s1"
      by (auto split: if_splits)
    with fs show ?thesis by blast
  next
    case False
    with in1 have "fail_result request ib ob ?s0 = Inr s1"
      by (auto simp: inner_def split: option.splits list.splits)
    then show ?thesis by simp
  qed
  have goal: "all_error (buffers_of (l_input_buffers (current s1)))
        \<and> all_error (buffers_of (l_output_buffers (current s1)))
        \<and> jpeg_jobs s1 = jpeg_jobs s \<and> sensor_thread s1 = sensor_thread s
        \<and> (\<exists>new. released s1 = released s @ new \<and> all_error new)"
    using step
  proof (elim disjE exE conjE)
    fix ids ret ls sa
    assume fs: "frame_settings env request ids ?s0 = Inr (ret, ls, sa)"
      and l: "s1 = latch_request env request ls ib ob sa"
    note f = frame_settings_fields[OF fs]
    have "released s1 = released s @ (d_out @ d_in @ buffers_of (l_input_buffers (current s))
           @ buffers_of (l_output_buffers (current s)))"
      using l f by (simp add: latch_request_fields)
    moreover have "all_error (d_out @ d_in @ buffers_of (l_input_buffers (current s))
           @ buffers_of (l_output_buffers (current s)))"
      using acq cur by simp
    ultimately have "\<exists>new. released s1 = released s @ new \<and> all_error new"
      by blast
    with l f acq jpeg show ?thesis
      by (simp add: latch_request_fields)
  next
    fix ids ret ls sa
    assume fs: "frame_settings env request ids ?s0 = Inr (ret, ls, sa)"
      and fr: "fail_result request ib ob sa = Inr s1"
    note f = frame_settings_fields[OF fs]
    note g = fail_result_fields[OF fr]
    have "released s1 = released s @ (d_out @ d_in @ buffers_of ib @ buffers_of ob)"
      using f g by simp
    moreover have "all_error (d_out @ d_in @ buffers_of ib @ buffers_of ob)"
      using acq by simp
    ultimately have "\<exists>new. released s1 = released s @ new \<and> all_error new"
      by blast
    with f g cur show ?thesis by simp
  next
    assume fr: "fail_result request ib ob ?s0 = Inr s1"
    note g = fail_result_fields[OF fr]
    have "released s1 = released s @ (d_out @ d_in @ buffers_of ib @ buffers_of ob)"
      using g by simp
    moreover have "all_error (d_out @ d_in @ buffers_of ib @ buffers_of ob)"
      using acq by simp
    ultimately have "\<exists>new. released s1 = released s @ new \<and> all_error new"
      by blast
    with g cur show ?thesis by simp
  qed
  from goal s' rest jpeg show ?thesis
    by (simp add: held_buffers_split)
qed

lemma threadLoop_stage1_status:
  "status_inv s \<Longrightarrow> sensor_thread s = None \<Longrightarrow>
   status_inv (threadLoop_stage1 s) \<and> released (threadLoop_stage1 s) = released s"
  by (simp add: status_inv_def threadLoop_stage1_def held_buffers_def thread_buffers_def
      no_request_def buffers_of_def)

lemma process_buffers_status:
  "process_buffers env settings chs rr nr bs = Inr (erased, queued) \<Longrightarrow> all_error bs \<Longrightarrow>
   all_error queued
   \<and> (\<forall>b \<in> set erased. status (stream_buffer b) = kOk \<longrightarrow>
        (\<exists>b0 \<in> set bs. b = set_status kOk b0
           \<and> (case map_of settings (camera_id b0) of
                 None \<Rightarrow> False
               | Some device_settings \<Rightarrow>
                   (case map_of chs (camera_id b0) of
                      None \<Rightarrow> False
                    | Some device_chars \<Rightarrow>
                        synthesize env (set_status kOk b0) device_settings device_chars rr
                          = Captured))))"
proof (induction bs arbitrary: erased queued)
  case Nil
  then show ?case by simp
next
  case (Cons b bs)
  from Cons.prems(2) have b: "status (stream_buffer b) = kError" and bs: "all_error bs"
    by simp_all
  from Cons.prems(1) obtain erased' queued' where
    r: "process_buffers env settings chs rr nr bs = Inr (erased', queued')"
    by (auto split: option.splits sum.splits synth_outcome.splits)
  note IH = Cons.IH[OF r bs]
  from Cons.prems(1) r have shape:
    "(erased = b # erased' \<and> queued = queued')
     \<or> (erased = set_status kOk b # erased' \<and> queued = queued'
        \<and> (\<exists>ds dc. map_of settings (camera_id b) = Some ds \<and> map_of chs (camera_id b) = Some dc
              \<and> synthesize env (set_status kOk b) ds dc rr = Captured))
     \<or> (erased = set_status kError b # erased' \<and> queued = queued')
     \<or> (erased = erased' \<and> queued = set_status kError b # queued')"
    by (auto split: option.splits sum.splits synth_outcome.splits)
  then show ?case
  proof (elim disjE conjE exE)
    assume "erased = b # erased'" "queued = queued'"
    with IH b show ?thesis by auto
  next
    fix ds dc
    assume "erased = set_status kOk b # erased'" "queued = queued'"
      "map_of settings (camera_id b) = Some ds" "map_of chs (camera_id b) = Some dc"
      "synthesize env (set_status kOk b) ds dc rr = Captured"
    with IH show ?thesis by auto
  next
    assume "erased = set_status kError b # erased'" "queued = queued'"
    with IH show ?thesis by (auto simp: set_status_def)
  next
    assume "erased = erased'" "queued = set_status kError b # queued'"
    with IH show ?thesis by (auto simp: set_status_def)
  qed
qed

lemma capture_times_reprocess:
  "capture_times clk locals = Inr (capture, readout, rr) \<Longrightarrow>
   rr = (buffers_of (l_input_buffers locals) \<noteq> [])"
  by (auto simp: capture_times_def Let_def buffers_of_def
      split: option.splits list.splits)

lemma synthesis_stage_status:
  assumes "synthesis_stage env chs locals rr capture readout
             = Inr (cbk, shutter, erased, queued, leftover)"
    and "all_error (buffers_of (l_output_buffers locals))"
  shows "all_error queued \<and> all_error leftover
       \<and> (\<forall>b \<in> set erased. status (stream_buffer b) = kOk \<longrightarrow>
            (\<exists>b0 \<in> set (buffers_of (l_output_buffers locals)). b = set_status kOk b0
               \<and> (case l_settings locals of
                     None \<Rightarrow> False
                   | Some settings \<Rightarrow>
                       (case map_of settings (camera_id b0) of
                          None \<Rightarrow> False
                        | Some device_settings \<Rightarrow>
                            (case map_of chs (camera_id b0) of
                               None \<Rightarrow> False
                             | Some device_chars \<Rightarrow>
                                 synthesize env (set_status kOk b0) device_settings
                                   device_chars rr = Captured)))))"
proof (cases "l_output_buffers locals")
  case None
  with assms show ?thesis by (simp add: synthesis_stage_def)
next
  case (Some next_buffers)
  show ?thesis
  proof (cases "l_settings locals")
    case None
    with assms Some show ?thesis by (simp add: synthesis_stage_def buffers_of_def)
  next
    case settings: (Some settings)
    from assms(1) Some settings have
      pb: "process_buffers env settings chs rr (l_result locals) next_buffers
            = Inr (erased, queued)" and "leftover = []"
      by (auto simp: synthesis_stage_def split: list.splits sum.splits)
    from assms(2) Some have "all_error next_buffers" by (simp add: buffers_of_def)
    from process_buffers_status[OF pb this] \<open>leftover = []\<close> Some settings
    show ?thesis by (simp add: buffers_of_def)
  qed
qed

lemma return_stage_fields:
  "return_stage env clk locals cbk rr leftover s = Inr s' \<Longrightarrow>
   pending_requests s' = pending_requests s \<and> current s' = current s
   \<and> jpeg_jobs s' = jpeg_jobs s \<and> sensor_thread s' = sensor_thread s
   \<and> released s' = released s @ leftover"
  by (auto simp: return_stage_def split: if_splits sum.splits)

lemma threadLoop_body_status:
  assumes a: "threadLoop_body env clk locals s = Inr s'"
    and out: "all_error (buffers_of (l_output_buffers locals))"
  shows "pending_requests s' = pending_requests s \<and> current s' = current s
       \<and> sensor_thread s' = sensor_thread s
       \<and> (\<exists>queued new. jpeg_jobs s' = jpeg_jobs s @ queued \<and> all_error queued
            \<and> released s' = released s @ new
            \<and> (\<forall>b \<in> set new. status (stream_buffer b) = kOk \<longrightarrow>
                 processed env (chars s) locals b))"
proof -
  from a obtain capture readout rr where ct: "capture_times clk locals = Inr (capture, readout, rr)"
    by (auto simp: threadLoop_body_def split: sum.splits prod.splits)
  note rr = capture_times_reprocess[OF ct]
  from a ct obtain cbk shutter erased queued leftover where
    ss: "synthesis_stage env (chars s) locals rr capture readout
           = Inr (cbk, shutter, erased, queued, leftover)"
    by (auto simp: threadLoop_body_def split: sum.splits prod.splits)
  let ?inputs = "(if rr then map (set_status kOk) (buffers_of (l_input_buffers locals)) else [])"
  let ?s1 = "s\<lparr> next_capture_time := capture, next_readout_time := readout,
                 callback_log := callback_log s @ shutter,
                 jpeg_jobs := jpeg_jobs s @ queued,
                 released := released s @ erased @ ?inputs \<rparr>"
  from a ct ss have rs: "return_stage env clk locals cbk rr leftover ?s1 = Inr s'"
    by (simp add: threadLoop_body_def)
  note f = return_stage_fields[OF rs]
  note st = synthesis_stage_status[OF ss out]
  have rel: "released s' = released s @ (erased @ ?inputs @ leftover)"
    using f by simp
  have ok: "\<forall>b \<in> set (erased @ ?inputs @ leftover). status (stream_buffer b) = kOk \<longrightarrow>
                 processed env (chars s) locals b"
  proof (intro ballI impI)
    fix b assume b: "b \<in> set (erased @ ?inputs @ leftover)" and k: "status (stream_buffer b) = kOk"
    from b consider "b \<in> set erased" | "b \<in> set ?inputs" | "b \<in> set leftover"
      by auto
    then show "processed env (chars s) locals b"
    proof cases
      case 1
      with st k rr show ?thesis
        unfolding processed_def by blast
    next
      case 2
      then show ?thesis
        unfolding processed_def by (auto split: if_splits)
    next
      case 3
      with st k show ?thesis by (auto simp: all_error_def)
    qed
  qed
  have "jpeg_jobs s' = jpeg_jobs s @ queued" using f by simp
  with f st rel ok show ?thesis
    by (intro conjI exI[where x = queued] exI[where x = "erased @ ?inputs @ leftover"]) simp_all
qed

lemma threadLoop_rest_status:
  assumes a: "threadLoop_rest env clk s = Inr s'" and inv: "status_inv s"
  shows "status_inv s'
       \<and> (\<exists>new. released s' = released s @ new
            \<and> (\<forall>b \<in> set new. status (stream_buffer b) = kOk \<longrightarrow>
                 (\<exists>locals. sensor_thread s = Some locals
                    \<and> processed env (chars s) locals b)))"
proof (cases "sensor_thread s")
  case None
  with a have "s' = s" by (simp add: threadLoop_rest_def)
  with inv show ?thesis by simp
next
  case (Some locals)
  let ?s0 = "s\<lparr>sensor_thread := None\<rparr>"
  from a Some have body: "threadLoop_body env clk locals ?s0 = Inr s'"
    by (simp add: threadLoop_rest_def)
  from inv Some have out: "all_error (buffers_of (l_output_buffers locals))"
    by (simp add: status_inv_def thread_buffers_def)
  from threadLoop_body_status[OF body out] obtain queued new where
    f: "pending_requests s' = pending_requests s" "current s' = current s"
    "sensor_thread s' = None" "jpeg_jobs s' = jpeg_jobs s @ queued" "all_error queued"
    "released s' = released s @ new"
    "\<forall>b \<in> set new. status (stream_buffer b) = kOk \<longrightarrow> processed env (chars s) locals b"
    by auto
  from inv f(1,2,4,5) have "all_error (held_buffers s')"
    by (simp add: status_inv_def held_buffers_split)
  moreover from f(3) have "all_error (thread_buffers s')"
    by (simp add: thread_buffers_def)
  ultimately have "status_inv s'" by (simp add: status_inv_def)
  with f(6,7) Some show ?thesis by auto
qed

lemma flush_current_status:
  assumes inv: "all_error (held_buffers s)"
  shows "all_error (held_buffers (flush_current s))
       \<and> sensor_thread (flush_current s) = sensor_thread s
       \<and> (\<exists>new. released (flush_current s) = released s @ new \<and> all_error new)"
proof -
  let ?ins = "(case l_input_buffers (current s) of Some (ib # ibs) \<Rightarrow> ib # ibs | _ \<Rightarrow> [])"
  let ?outs = "(case l_output_buffers (current s) of
                  Some (ob # obs) \<Rightarrow> map (set_status kError) (ob # obs) | _ \<Rightarrow> [])"
  have rel: "released (flush_current s) = released s @ (jpeg_jobs s @ ?ins @ ?outs)"
    by (simp add: flush_current_def Let_def split: option.splits list.splits)
  have f: "pending_requests (flush_current s) = pending_requests s"
    "jpeg_jobs (flush_current s) = []"
    "buffers_of (l_input_buffers (current (flush_current s))) = []"
    "buffers_of (l_output_buffers (current (flush_current s))) = []"
    "sensor_thread (flush_current s) = sensor_thread s"
    by (simp_all add: flush_current_def Let_def buffers_of_def split: option.splits list.splits)
  from inv have j: "all_error (jpeg_jobs s)"
    and i: "all_error (buffers_of (l_input_buffers (current s)))"
    by (simp_all add: held_buffers_split)
  from i have ins: "all_error ?ins"
    by (auto simp: buffers_of_def split: option.splits list.splits)
  have outs: "all_error ?outs"
    by (auto simp: all_error_def set_status_def split: option.splits list.splits)
  from j ins outs have "all_error (jpeg_jobs s @ ?ins @ ?outs)"
    by simp
  with rel have "\<exists>new. released (flush_current s) = released s @ new \<and> all_error new"
    by blast
  moreover from inv f have "all_error (held_buffers (flush_current s))"
    by (simp add: held_buffers_split)
  ultimately show ?thesis using f(5) by simp
qed

lemma flush_pending_fields:
  "flush_pending reqs s = Inr s' \<Longrightarrow>
   jpeg_jobs s' = jpeg_jobs s \<and> sensor_thread s' = sensor_thread s"
proof (induction reqs arbitrary: s)
  case Nil
  then show ?case by auto
next
  case (Cons request rest)
  from Cons.prems obtain marked s1 where
    n: "NotifyFailedRequest request s = Inr (marked, s1)"
    and r: "flush_pending rest (s1\<lparr> pending_requests := rest,
                 released := released s1 @ buffers_of (pr_output_buffers marked)
                               @ buffers_of (pr_input_buffers marked) \<rparr>) = Inr s'"
    by (auto split: sum.splits)
  from n have "jpeg_jobs s1 = jpeg_jobs s \<and> sensor_thread s1 = sensor_thread s"
    by (auto simp: NotifyFailedRequest_def call_notify_def Let_def split: option.splits)
  with Cons.IH[OF r] show ?case by simp
qed

lemma all_error_marked:
  "all_error (map (\<lambda>b. b\<lparr>is_failed_request := True\<rparr>) bs) = all_error bs"
  by (induction bs) simp_all

lemma all_error_flushed:
  "all_error (concat (map flushed_buffers reqs))
     = all_error (concat (map (\<lambda>r. buffers_of (pr_output_buffers r)
                                  @ buffers_of (pr_input_buffers r)) reqs))"
  by (induction reqs) (simp_all add: flushed_buffers_def all_error_marked)

lemma flush_pending_status:
  assumes a: "flush_pending (pending_requests s) s = Inr s'"
    and inv: "all_error (held_buffers s)"
  shows "all_error (held_buffers s') \<and> sensor_thread s' = sensor_thread s
       \<and> (\<exists>new. released s' = released s @ new \<and> all_error new)"
proof -
  from flush_pending_log[OF a] have
    f: "pending_requests s' = []" "current s' = current s"
    "released s' = released s @ concat (map flushed_buffers (pending_requests s))"
    by auto
  note g = flush_pending_fields[OF a]
  from inv have "all_error (concat (map flushed_buffers (pending_requests s)))"
    by (simp add: all_error_flushed held_buffers_split)
  with f(3) have "\<exists>new. released s' = released s @ new \<and> all_error new"
    by blast
  moreover from inv f g have "all_error (held_buffers s')"
    by (simp add: held_buffers_split)
  ultimately show ?thesis using g by simp
qed

lemma run_operation_status:
  assumes inv: "status_inv s" and run: "run_operation env op s = Inr s'"
  shows "status_inv s'
       \<and> (\<exists>new. released s' = released s @ new
            \<and> (\<forall>b \<in> set new. status (stream_buffer b) = kOk \<longrightarrow>
                 (\<exists>clk locals. op = Act (SensorRest clk) \<and> sensor_thread s = Some locals
                    \<and> processed env (chars s) locals b)))"
proof -
  have quiet: "status_inv s' \<and> (\<exists>new. released s' = released s @ new
            \<and> (\<forall>b \<in> set new. status (stream_buffer b) = kOk \<longrightarrow>
                 (\<exists>clk locals. op = Act (SensorRest clk) \<and> sensor_thread s = Some locals
                    \<and> processed env (chars s) locals b)))"
    if "all_error (held_buffers s') \<and> sensor_thread s' = sensor_thread s
       \<and> (\<exists>new. released s' = released s @ new \<and> all_error new)"
  proof -
    from that obtain new where n: "released s' = released s @ new" "all_error new"
      and h: "all_error (held_buffers s')" "sensor_thread s' = sensor_thread s"
      by blast
    from h inv have "status_inv s'"
      by (simp add: status_inv_def thread_buffers_def)
    moreover from n(2) have "\<forall>b \<in> set new. status (stream_buffer b) \<noteq> kOk"
      by (auto simp: all_error_def)
    ultimately show ?thesis using n(1) by blast
  qed
  from inv have held: "all_error (held_buffers s)" by (simp add: status_inv_def)
  show ?thesis
  proof (cases op)
    case (Admit fn pl req)
    with run obtain res where "admit env fn pl req s = Inr (res, s')"
      by (auto simp: run_operation_def split: sum.splits)
    from admit_status[OF this held] show ?thesis by (rule quiet)
  next
    case FlushCurrent
    with run have "s' = flush_current s" by (simp add: run_operation_def)
    with flush_current_status[OF held] show ?thesis by (intro quiet) simp
  next
    case FlushPending
    with run have "flush_pending (pending_requests s) s = Inr s'"
      by (simp add: run_operation_def)
    from flush_pending_status[OF this held] show ?thesis by (rule quiet)
  next
    case (Act a)
    show ?thesis
    proof (cases a)
      case ProcessorIteration
      with run Act have "RequestProcessorLoop_body env s = Inr s'"
        by (simp add: run_operation_def apply_action_def)
      from RequestProcessorLoop_body_status[OF this held] show ?thesis by (rule quiet)
    next
      case SensorStage1
      show ?thesis
      proof (cases "sensor_thread s")
        case None
        with run Act SensorStage1 have "s' = threadLoop_stage1 s"
          by (simp add: run_operation_def apply_action_def)
        with threadLoop_stage1_status[OF inv None] show ?thesis by simp
      next
        case (Some locals)
        with run Act SensorStage1 have "s' = s"
          by (simp add: run_operation_def apply_action_def)
        with inv show ?thesis by simp
      qed
    next
      case (SensorRest clk)
      with run Act have "threadLoop_rest env clk s = Inr s'"
        by (simp add: run_operation_def apply_action_def)
      from threadLoop_rest_status[OF this inv] Act SensorRest show ?thesis
        by blast
    qed
  qed
qed


text \<open>The invariant holds across the entry points: \<open>ProcessPipelineRequests\<close> with
  whatever the other threads do while it waits, and \<open>Flush\<close>.\<close>

lemma apply_action_status_inv:
  "status_inv s \<Longrightarrow> apply_action env a s = Inr s' \<Longrightarrow> status_inv s'"
  using run_operation_status[where op = "Act a" and env = env and s = s and s' = s']
  by (simp add: run_operation_def)

lemma apply_actions_status_inv:
  "status_inv s \<Longrightarrow> apply_actions env acts s = Inr s' \<Longrightarrow> status_inv s'"
proof (induction acts arbitrary: s)
  case Nil
  then show ?case by simp
next
  case (Cons a acts)
  from Cons.prems(2) obtain s1 where 1: "apply_action env a s = Inr s1"
    and 2: "apply_actions env acts s1 = Inr s'"
    by (auto split: sum.splits)
  from apply_action_status_inv[OF Cons.prems(1) 1] 2 show ?case
    by (rule Cons.IH)
qed

lemma wait_for_slot_status_inv:
  "status_inv s \<Longrightarrow> wait_for_slot env waits s = Inr (w, waits', s') \<Longrightarrow> status_inv s'"
proof (induction waits arbitrary: s)
  case Nil
  then show ?case by (auto split: if_splits)
next
  case (Cons a waits)
  obtain acts timeout where a: "a = (acts, timeout)" by (cases a)
  show ?case
  proof (cases "length (pending_requests s) > unat kPipelineDepth")
    case False
    with Cons.prems a show ?thesis by auto
  next
    case True
    with Cons.prems(2) a obtain s1 where 1: "apply_actions env acts s = Inr s1"
      by (auto split: sum.splits)
    note inv1 = apply_actions_status_inv[OF Cons.prems(1) 1]
    from Cons.prems(2) a True 1 have "s' = s1 \<or> wait_for_slot env waits s1 = Inr (w, waits', s')"
      by (auto split: if_splits)
    with inv1 Cons.IH[OF inv1] show ?thesis by auto
  qed
qed

lemma admit_status_inv:
  assumes "status_inv s" and "admit env fn pl req s = Inr (res, s')"
  shows "status_inv s'"
  using run_operation_status[where op = "Admit fn pl req" and env = env and s = s and s' = s']
    assms
  by (simp add: run_operation_def)

lemma ProcessPipelineRequests_status_inv:
  "status_inv s \<Longrightarrow> ProcessPipelineRequests env fn reqs pl waits s = Inr (r, waits', s') \<Longrightarrow>
   status_inv s'"
proof (induction reqs arbitrary: waits s)
  case Nil
  then show ?case by simp
next
  case (Cons req reqs)
  show ?case
  proof (cases "unat (req_pipeline_id req) \<ge> length pl")
    case True
    with Cons.prems show ?thesis by simp
  next
    case False
    with Cons.prems(2) obtain w ws1 s1 where w: "wait_for_slot env waits s = Inr (w, ws1, s1)"
      by (auto split: sum.splits)
    note inv1 = wait_for_slot_status_inv[OF Cons.prems(1) w]
    show ?thesis
    proof (cases w)
      case SlotFree
      with Cons.prems(2) False w obtain res s2 where
        ad: "admit env fn pl req s1 = Inr (res, s2)"
        by (auto split: sum.splits)
      note inv2 = admit_status_inv[OF inv1 ad]
      from Cons.prems(2) False w SlotFree ad
      have "s' = s2 \<or> ProcessPipelineRequests env fn reqs pl ws1 s2 = Inr (r, waits', s')"
        by (auto split: if_splits)
      with inv2 Cons.IH[OF inv2] show ?thesis by auto
    next
      case SlotTimedOut
      with Cons.prems(2) False w have "s' = s1" by simp
      with inv1 show ?thesis by simp
    next
      case StillWaiting
      with Cons.prems(2) False w have "s' = s1" by simp
      with inv1 show ?thesis by simp
    qed
  qed
qed

lemma vsync_step_status_inv:
  assumes "status_inv s" and "vsync_step env clk s = Inr s'"
  shows "status_inv s'"
proof -
  from assms(2) obtain s1 where r: "threadLoop_rest env clk s = Inr s1"
    and s': "s' = threadLoop_stage1 s1"
    by (auto simp: vsync_step_def split: sum.splits)
  from threadLoop_rest_status[OF r assms(1)] have "status_inv s1" by simp
  moreover from threadLoop_rest_flush[OF r] have "sensor_thread s1 = None" by auto
  ultimately show ?thesis
    using s' by (simp add: threadLoop_stage1_status)
qed

lemma vsync_wait_loop_status_inv:
  "status_inv s \<Longrightarrow> vsync_wait_loop env waits s = Some (Inr (ret, s')) \<Longrightarrow> status_inv s'"
proof (induction waits arbitrary: s)
  case Nil
  then show ?case by (auto split: if_splits)
next
  case (Cons a waits)
  obtain vsync res where a: "a = (vsync, res)" by (cases a)
  show ?case
  proof (cases "got_vsync s")
    case True
    with Cons.prems a show ?thesis by simp
  next
    case False
    obtain s1 where s1: "(case vsync of None \<Rightarrow> Inr s | Some clk \<Rightarrow> vsync_step env clk s) = Inr s1"
      using Cons.prems(2) a False by (auto split: sum.splits)
    have inv1: "status_inv s1"
    proof (cases vsync)
      case None
      with s1 Cons.prems(1) show ?thesis by simp
    next
      case (Some clk)
      with s1 have "vsync_step env clk s = Inr s1" by simp
      from vsync_step_status_inv[OF Cons.prems(1) this] show ?thesis .
    qed
    from Cons.prems(2) a False s1
    have "s' = s1 \<or> vsync_wait_loop env waits s1 = Some (Inr (ret, s'))"
      by (auto split: if_splits)
    with inv1 Cons.IH[OF inv1] show ?thesis by auto
  qed
qed

lemma Flush_status_inv:
  assumes "status_inv s" and "Flush env waits s = Some (Inr (ret, s'))"
  shows "status_inv s'"
proof -
  from assms(2) obtain w s1 where
    wait: "vsync_wait_loop env waits (s\<lparr>got_vsync := False\<rparr>) = Some (Inr (w, s1))"
    and fp: "flush_pending (pending_requests (flush_current s1)) (flush_current s1) = Inr s'"
    by (auto simp: Flush_def Sensor_Flush_def WaitForVSyncLocked_def
        split: option.splits sum.splits prod.splits)
  from assms(1) have "status_inv (s\<lparr>got_vsync := False\<rparr>)"
    by (simp add: status_inv_def held_buffers_def thread_buffers_def)
  from vsync_wait_loop_status_inv[OF this wait] have 1: "status_inv s1" .
  from run_operation_status[where op = FlushCurrent and env = env and s = s1
      and s' = "flush_current s1"] 1
  have 2: "status_inv (flush_current s1)"
    by (simp add: run_operation_def)
  from run_operation_status[where op = FlushPending and env = env and s = "flush_current s1"
      and s' = s'] 2 fp
  show ?thesis
    by (simp add: run_operation_def)
qed

text \<open>
  C10. \<open>CreateSensorBuffer\<close> sets the status of the buffer it builds to \<open>kError\<close>,
  whether it returns the buffer or destroys it. From then on, in every state, each
  buffer of a queued request, each buffer latched in the sensor, each buffer of a JPEG
  job and each buffer of the frame the sensor loop has taken carries \<open>kError\<close>
  (\<open>status_inv\<close>), and every step keeps it so: the admission of a request, a pass of
  the request loop, a stage of the sensor loop, the two parts of a flush. A buffer that
  a step destroys (returns to the client) with status \<open>kOk\<close> is destroyed by the
  synthesis stage of the sensor loop and was processed there: it is an output buffer of
  the frame whose camera has settings and characteristics and whose synthesis
  succeeded, or an input buffer of a reprocess request. Every other buffer destroyed,
  dropped by \<open>AcquireBuffers\<close>, replaced in the sensor, failed or flushed, carries
  \<open>kError\<close>. (The JPEG compressor, which sets the status of the buffers handed to it,
  is not part of the sources; they are followed up to the queue.)
\<close>

theorem C10_error_status_until_processed:
  assumes "CreateSensorBuffer env frame_number stream pipeline cbk sbuf ow oh
             = (created, destroyed)"
    and "status_inv s" and "run_operation env op s = Inr s'"
  shows "all_error (case created of None \<Rightarrow> [] | Some b \<Rightarrow> [b]) \<and> all_error destroyed
       \<and> status_inv s'
       \<and> (\<exists>new. released s' = released s @ new
            \<and> (\<forall>b \<in> set new. status (stream_buffer b) = kOk \<longrightarrow>
                 (\<exists>clk locals. op = Act (SensorRest clk) \<and> sensor_thread s = Some locals
                    \<and> processed env (chars s) locals b)))"
  using CreateSensorBuffer_error[OF assms(1)] run_operation_status[OF assms(2,3)]
  by (intro conjI) (elim conjE, assumption)+

text \<open>Frames 2 and 3 queued and frame 1 taken by the sensor loop: all three output
  buffers carry \<open>kError\<close>, though the client's stream buffer came with \<open>kOk\<close>. The rest
  of the iteration returns the buffer of frame 1 with \<open>kOk\<close>, processed; the two
  others stay as they are.\<close>

theorem C10_error_status_until_processed_witness:
  "status output_buffer_zero = kOk
   \<and> map_option (\<lambda>b. status (stream_buffer b))
        (fst (CreateSensorBuffer env_ok 1 stream_zero 0 client_callback output_buffer_zero 0 0))
       = Some kError
   \<and> map (\<lambda>b. status (stream_buffer b))
        (held_buffers mid_synthesis @ thread_buffers mid_synthesis) = [kError, kError, kError]
   \<and> map (\<lambda>b. status (stream_buffer b))
        (released (the_state (run_operation env_ok (Act (SensorRest clock_zero)) mid_synthesis)))
       = [kOk]
   \<and> (\<exists>locals. sensor_thread mid_synthesis = Some locals
         \<and> list_all (processed env_ok (chars mid_synthesis) locals)
             (released (the_state
                (run_operation env_ok (Act (SensorRest clock_zero)) mid_synthesis))))
   \<and> list_all (\<lambda>b. status (stream_buffer b) = kError)
        (held_buffers (the_state
           (run_operation env_ok (Act (SensorRest clock_zero)) mid_synthesis)))"
proof -
  let ?s' = "the_state (run_operation env_ok (Act (SensorRest clock_zero)) mid_synthesis)"
  let ?c = "CreateSensorBuffer env_ok 1 stream_zero 0 client_callback output_buffer_zero 0 0"
  have inv: "status_inv mid_synthesis"
    by code_simp
  have run: "run_operation env_ok (Act (SensorRest clock_zero)) mid_synthesis = Inr ?s'"
    by code_simp
  have create: "?c = (fst ?c, snd ?c)"
    by simp
  have client: "status output_buffer_zero = kOk"
    by code_simp
  have made: "map_option (\<lambda>b. status (stream_buffer b)) (fst ?c) = Some kError"
    by code_simp
  have before: "map (\<lambda>b. status (stream_buffer b))
        (held_buffers mid_synthesis @ thread_buffers mid_synthesis) = [kError, kError, kError]"
    by code_simp
  have none: "released mid_synthesis = []"
    by code_simp
  have after: "map (\<lambda>b. status (stream_buffer b)) (released ?s') = [kOk]"
    by code_simp
  note C10 = C10_error_status_until_processed [OF create inv run]
  from C10 have "status_inv ?s'"
    by (elim conjE)
  then have held: "list_all (\<lambda>b. status (stream_buffer b) = kError) (held_buffers ?s')"
    by (simp add: status_inv_def all_error_def list_all_iff)
  from C10 obtain new where new: "released ?s' = released mid_synthesis @ new"
    and ok: "\<forall>b \<in> set new. status (stream_buffer b) = kOk \<longrightarrow>
                 (\<exists>clk locals. Act (SensorRest clock_zero) = Act (SensorRest clk)
                    \<and> sensor_thread mid_synthesis = Some locals
                    \<and> processed env_ok (chars mid_synthesis) locals b)"
    by (elim conjE exE)
  from new none have rel: "released ?s' = new"
    by simp
  with after have "\<forall>b \<in> set new. status (stream_buffer b) = kOk"
    by (cases new) auto
  with ok have "\<forall>b \<in> set new. \<exists>locals. sensor_thread mid_synthesis = Some locals
                    \<and> processed env_ok (chars mid_synthesis) locals b"
    by blast
  moreover obtain locals where "sensor_thread mid_synthesis = Some locals"
    using ok after rel by (cases new) auto
  ultimately have "\<exists>locals. sensor_thread mid_synthesis = Some locals
         \<and> list_all (processed env_ok (chars mid_synthesis) locals) (released ?s')"
    using rel by (auto simp: list_all_iff)
  with client made before after held show ?thesis
    by simp
qed

section \<open>Properties of the imported buffer handle map\<close>

text \<open>
  C2. For a key that is in the map with handle \<open>h\<close>: adding \<open>h\<close> again returns OK and
  leaves the map as it is; adding a different handle returns \<open>BAD_VALUE\<close> and leaves the
  map as it is, so that the key still maps to \<open>h\<close>. And a key that an addition has put
  in the map maps to the handle added.
\<close>

theorem C2_cache_identity:
  assumes "m key = Some h"
  shows "AddImportedBufferHandlesLocked key h m = (OK, m)
       \<and> (h' \<noteq> h \<longrightarrow> AddImportedBufferHandlesLocked key h' m = (BAD_VALUE, m))
       \<and> snd (AddImportedBufferHandlesLocked key h' m) key = Some h
       \<and> (fresh key = None \<longrightarrow>
            AddImportedBufferHandlesLocked key h fresh = (OK, fresh(key \<mapsto> h)))"
  using assms by (simp add: AddImportedBufferHandlesLocked_def)

text \<open>Handle 100 imported for buffer 1 of stream 0: importing 100 again is fine,
  importing 200 fails and the buffer keeps handle 100.\<close>

theorem C2_cache_identity_witness:
  "one_imported cache_key = Some 100
   \<and> AddImportedBufferHandlesLocked cache_key 100 one_imported = (OK, one_imported)
   \<and> AddImportedBufferHandlesLocked cache_key 200 one_imported = (BAD_VALUE, one_imported)
   \<and> snd (AddImportedBufferHandlesLocked cache_key 200 one_imported) cache_key = Some 100"
proof -
  have imported: "one_imported cache_key = Some 100"
    by (simp add: one_imported_def AddImportedBufferHandlesLocked_def)
  from C2_cache_identity [where m = one_imported and key = cache_key and h = 100
      and h' = 200 and fresh = Map.empty, OF imported] imported
  show ?thesis
    by simp
qed
end
